theory Spec2Isabelle
  imports Complex_Main "HOL-Library.Signed_Division" "HOL-Library.Log_Nat"
begin

section \<open>Name resolution\<close>

text \<open>
  Modelled from the spec: the definition tables of \<^verbatim>\<open>definitionsCollector.ts\<close> (not among the
  sources), with the fields the resolver reads. A value definition has an identifier and an
  optional scope, the identity of an IR node; a type definition has an identifier. Node
  identities are \<^verbatim>\<open>bigint\<close>s.
\<close>

record TypeDefinition =
  "identifier" :: string

record ValueDefinition = TypeDefinition +
  scope :: "int option"

record DefinitionTable =
  valueDefinitions :: "ValueDefinition list"
  typeDefinitions :: "TypeDefinition list"

datatype errorKind = TypeKind | ValueKind

text \<open>
  \<^verbatim>\<open>NameError\<close>, with its fields in the order \<^verbatim>\<open>kind\<close>, \<^verbatim>\<open>name\<close>, \<^verbatim>\<open>definitionName\<close>,
  \<^verbatim>\<open>moduleName\<close>, \<^verbatim>\<open>reference\<close>. The module name is what \<^verbatim>\<open>currentModule()\<close> returns, which
  is \<^verbatim>\<open>undefined\<close> (\<open>None\<close>) when no module is open.
\<close>

datatype NameError = NameError errorKind string string "string option" int

datatype NameResolutionResult = Ok | Error "NameError list"

text \<open>
  Modelled from the spec: \<^verbatim>\<open>walkModule\<close> of \<^verbatim>\<open>IRVisitor.ts\<close> (not among the sources) visits the
  definitions and expressions of the module depth-first, children in source order, and
  calls the hooks of the visitor. The model takes the module as the sequence of those calls,
  each with what the hook reads of its argument: for \<^verbatim>\<open>enterDef\<close> the name of the definition
  (of its module, when it is a module definition), for \<^verbatim>\<open>enterModuleDef\<close> the name of the
  module, for a name, an application and a type name the name (the opcode) and the identity
  of the node.
\<close>

datatype event =
    EnterDef string
  | EnterModuleDef string
  | ExitModuleDef
  | EnterName string int
  | EnterApp string int
  | EnterVarType string int
  | EnterConstType string int

text \<open>The fields of \<^verbatim>\<open>NameResolverVisitor\<close> that the hooks update.\<close>

record visitor =
  results :: "NameResolutionResult list"
  defName :: string
  moduleStack :: "string list"

text \<open>\<^verbatim>\<open>new Error(`Can't find table for module ${moduleName}`)\<close>, thrown by \<^verbatim>\<open>table()\<close>.\<close>

datatype thrown = CantFindTable "string option"

definition currentModule :: "visitor \<Rightarrow> string option" where
  "currentModule v = (if moduleStack v = [] then None else Some (last (moduleStack v)))"

definition table :: "(string \<Rightarrow> DefinitionTable option) \<Rightarrow> visitor \<Rightarrow> thrown + DefinitionTable" where
  "table tables v =
     (case currentModule v of
        None \<Rightarrow> Inl (CantFindTable None)
      | Some m \<Rightarrow>
          (case tables m of
             None \<Rightarrow> Inl (CantFindTable (Some m))
           | Some t \<Rightarrow> Inr t))"

text \<open>
  \<^verbatim>\<open>filterScope\<close>. \<^verbatim>\<open>!definition.scope\<close> holds when the scope is absent, and also when it is
  the \<^verbatim>\<open>bigint\<close> zero.
\<close>

definition filterScope :: "ValueDefinition list \<Rightarrow> int list \<Rightarrow> ValueDefinition list" where
  "filterScope valueDefs scopes =
     filter (\<lambda>d. (case scope d of None \<Rightarrow> True | Some sc \<Rightarrow> sc = 0) \<or>
                  (case scope d of None \<Rightarrow> False | Some sc \<Rightarrow> sc \<in> set scopes)) valueDefs"

definition pushError ::
  "errorKind \<Rightarrow> string \<Rightarrow> int \<Rightarrow> visitor \<Rightarrow> visitor" where
  "pushError k n ref v =
     v\<lparr>results := results v @
          [Error [NameError k n (defName v) (currentModule v) ref]]\<rparr>"

text \<open>
  The hooks \<^verbatim>\<open>enterDef\<close>, \<^verbatim>\<open>enterModuleDef\<close>, \<^verbatim>\<open>exitModuleDef\<close>, \<^verbatim>\<open>enterName\<close>, \<^verbatim>\<open>enterApp\<close>,
  \<^verbatim>\<open>enterVarType\<close> and \<^verbatim>\<open>enterConstType\<close>; \<open>scopesForId\<close> is \<^verbatim>\<open>scopesForId(this.scopeTree, _)\<close>
  of \<^verbatim>\<open>scoping.ts\<close> (not among the sources).
\<close>

fun visit ::
  "(string \<Rightarrow> DefinitionTable option) \<Rightarrow> (int \<Rightarrow> int list) \<Rightarrow> event \<Rightarrow> visitor
     \<Rightarrow> thrown + visitor" where
  "visit tables scopesForId (EnterDef n) v = Inr (v\<lparr>defName := n\<rparr>)"
| "visit tables scopesForId (EnterModuleDef m) v = Inr (v\<lparr>moduleStack := moduleStack v @ [m]\<rparr>)"
| "visit tables scopesForId ExitModuleDef v = Inr (v\<lparr>moduleStack := butlast (moduleStack v)\<rparr>)"
| "visit tables scopesForId (EnterName n ident) v =
     (case table tables v of
        Inl e \<Rightarrow> Inl e
      | Inr t \<Rightarrow>
          (let valueDefinitionsForScope = filterScope (valueDefinitions t) (scopesForId ident)
           in if \<not> list_ex (\<lambda>d. identifier d = n) valueDefinitionsForScope
              then Inr (pushError ValueKind n ident v) else Inr v))"
| "visit tables scopesForId (EnterApp opcode ident) v =
     (case table tables v of
        Inl e \<Rightarrow> Inl e
      | Inr t \<Rightarrow>
          (let valueDefinitionsForScope = filterScope (valueDefinitions t) (scopesForId ident)
           in if \<not> list_ex (\<lambda>d. identifier d = opcode) valueDefinitionsForScope
              then Inr (pushError ValueKind opcode ident v) else Inr v))"
| "visit tables scopesForId (EnterVarType n ident) v =
     (case table tables v of
        Inl e \<Rightarrow> Inl e
      | Inr t \<Rightarrow>
          (if \<not> list_ex (\<lambda>d. identifier d = n) (typeDefinitions t)
           then Inr (pushError TypeKind n ident v) else Inr v))"
| "visit tables scopesForId (EnterConstType n ident) v =
     (case table tables v of
        Inl e \<Rightarrow> Inl e
      | Inr t \<Rightarrow>
          (if \<not> list_ex (\<lambda>d. identifier d = n) (typeDefinitions t)
           then Inr (pushError TypeKind n ident v) else Inr v))"

fun walkModule ::
  "(string \<Rightarrow> DefinitionTable option) \<Rightarrow> (int \<Rightarrow> int list) \<Rightarrow> event list \<Rightarrow> visitor
     \<Rightarrow> thrown + visitor" where
  "walkModule tables scopesForId [] v = Inr v"
| "walkModule tables scopesForId (e # es) v =
     (case visit tables scopesForId e v of
        Inl x \<Rightarrow> Inl x
      | Inr v' \<Rightarrow> walkModule tables scopesForId es v')"

definition mergeNameResults :: "NameResolutionResult list \<Rightarrow> NameResolutionResult" where
  "mergeNameResults rs =
     (let errors = foldl (\<lambda>errors result.
                            case result of Error es \<Rightarrow> errors @ es | Ok \<Rightarrow> errors) [] rs
      in if length errors > 0 then Error errors else Ok)"

definition resolveNames ::
  "event list \<Rightarrow> (string \<Rightarrow> DefinitionTable option) \<Rightarrow> (int \<Rightarrow> int list)
     \<Rightarrow> thrown + NameResolutionResult" where
  "resolveNames tntModule tables scopesForId =
     (case walkModule tables scopesForId tntModule \<lparr>results = [], defName = [], moduleStack = []\<rparr> of
        Inl x \<Rightarrow> Inl x
      | Inr v \<Rightarrow> Inr (mergeNameResults (results v)))"

text \<open>
  The words of the specification. A value definition is in scope under the scopes \<open>S\<close> when
  its scope is absent or belongs to \<open>S\<close>; a name resolves when an in-scope value definition
  has it as identifier, a type name when a type definition has. \<open>specReferences\<close> are the
  references of the walk (names, applications, type names), each with the stack of open
  modules and the name of the last definition entered; \<open>specError\<close> is the error that
  attributes an unresolved reference.
\<close>

definition specInScope :: "ValueDefinition \<Rightarrow> int list \<Rightarrow> bool" where
  "specInScope d S \<longleftrightarrow> (case scope d of None \<Rightarrow> True | Some sc \<Rightarrow> sc \<in> set S)"

fun specReferences :: "string list \<Rightarrow> string \<Rightarrow> event list \<Rightarrow> (string list \<times> string \<times> event) list" where
  "specReferences st dn [] = []"
| "specReferences st dn (EnterDef n # es) = specReferences st n es"
| "specReferences st dn (EnterModuleDef m # es) = specReferences (st @ [m]) dn es"
| "specReferences st dn (ExitModuleDef # es) = specReferences (butlast st) dn es"
| "specReferences st dn (e # es) = (st, dn, e) # specReferences st dn es"

fun specTable :: "(string \<Rightarrow> DefinitionTable option) \<Rightarrow> string list \<Rightarrow> DefinitionTable option" where
  "specTable tables st = (if st = [] then None else tables (last st))"

fun specResolves ::
  "(string \<Rightarrow> DefinitionTable option) \<Rightarrow> (int \<Rightarrow> int list) \<Rightarrow> string list \<times> string \<times> event \<Rightarrow> bool" where
  "specResolves tables scopesFor (st, dn, EnterName n ident) =
     (case specTable tables st of None \<Rightarrow> False
      | Some t \<Rightarrow> \<exists>d \<in> set (valueDefinitions t). identifier d = n \<and> specInScope d (scopesFor ident))"
| "specResolves tables scopesFor (st, dn, EnterApp n ident) =
     (case specTable tables st of None \<Rightarrow> False
      | Some t \<Rightarrow> \<exists>d \<in> set (valueDefinitions t). identifier d = n \<and> specInScope d (scopesFor ident))"
| "specResolves tables scopesFor (st, dn, EnterVarType n ident) =
     (case specTable tables st of None \<Rightarrow> False
      | Some t \<Rightarrow> \<exists>d \<in> set (typeDefinitions t). identifier d = n)"
| "specResolves tables scopesFor (st, dn, EnterConstType n ident) =
     (case specTable tables st of None \<Rightarrow> False
      | Some t \<Rightarrow> \<exists>d \<in> set (typeDefinitions t). identifier d = n)"
| "specResolves tables scopesFor (st, dn, _) = True"

fun specError :: "string list \<times> string \<times> event \<Rightarrow> NameError" where
  "specError (st, dn, EnterName n ident) =
     NameError ValueKind n dn (if st = [] then None else Some (last st)) ident"
| "specError (st, dn, EnterApp n ident) =
     NameError ValueKind n dn (if st = [] then None else Some (last st)) ident"
| "specError (st, dn, EnterVarType n ident) =
     NameError TypeKind n dn (if st = [] then None else Some (last st)) ident"
| "specError (st, dn, EnterConstType n ident) =
     NameError TypeKind n dn (if st = [] then None else Some (last st)) ident"
| "specError (st, dn, _) =
     NameError ValueKind [] dn None 0"

definition specUnresolved ::
  "(string \<Rightarrow> DefinitionTable option) \<Rightarrow> (int \<Rightarrow> int list) \<Rightarrow> event list
     \<Rightarrow> (string list \<times> string \<times> event) list" where
  "specUnresolved tables scopesFor tntModule =
     filter (\<lambda>x. \<not> specResolves tables scopesFor x) (specReferences [] [] tntModule)"

text \<open>No value definition of a table has the scope zero.\<close>

definition scopesNonzero :: "(string \<Rightarrow> DefinitionTable option) \<Rightarrow> bool" where
  "scopesNonzero tables \<longleftrightarrow>
     (\<forall>m t. tables m = Some t \<longrightarrow> (\<forall>d \<in> set (valueDefinitions t). scope d \<noteq> Some 0))"

text \<open>
  The module of the third scenario, \<^verbatim>\<open>module M { val x = y + 1 }\<close>, where \<^verbatim>\<open>y\<close> is not
  declared: its walk, and its table with the definitions of \<^verbatim>\<open>x\<close> and of the built-in
  \<^verbatim>\<open>iadd\<close>.
\<close>

definition undeclaredY :: "event list" where
  "undeclaredY = [EnterModuleDef ''M'', EnterDef ''x'', EnterApp ''iadd'' 3, EnterName ''y'' 1,
                  ExitModuleDef]"

definition undeclaredYTables :: "string \<Rightarrow> DefinitionTable option" where
  "undeclaredYTables =
     [''M'' \<mapsto> \<lparr>valueDefinitions = [\<lparr>identifier = ''x'', scope = None\<rparr>,
                                       \<lparr>identifier = ''iadd'', scope = None\<rparr>],
                  typeDefinitions = []\<rparr>]"

section \<open>Runtime values and the register bank\<close>

text \<open>
  Modelled from the spec: the runtime values of \<^verbatim>\<open>runtimeValue.ts\<close> (the file is not among
  the sources; section 3 lists the constructors). Integers are JavaScript \<^verbatim>\<open>bigint\<close>s,
  hence unbounded; a record and a map keep their bindings in insertion order.
\<close>

datatype rvalue =
    BoolV bool
  | IntV int
  | StrV string
  | TupV "rvalue list"
  | ListV "rvalue list"
  | RecV "(string \<times> rvalue) list"
  | SetV "rvalue list"
  | MapV "(rvalue \<times> rvalue) list"

text \<open>
  Modelled from the spec: the coercions \<^verbatim>\<open>toBool\<close>, \<^verbatim>\<open>toInt\<close>, \<^verbatim>\<open>toStr\<close> of
  \<^verbatim>\<open>runtimeValue.ts\<close> "assume a prior type check"; on a value of another shape the model
  returns a default.
\<close>

fun toBool :: "rvalue \<Rightarrow> bool" where
  "toBool (BoolV b) = b"
| "toBool _ = False"

fun toInt :: "rvalue \<Rightarrow> int" where
  "toInt (IntV i) = i"
| "toInt _ = 0"

fun toStr :: "rvalue \<Rightarrow> string" where
  "toStr (StrV x) = x"
| "toStr _ = []"

text \<open>
  A \<^verbatim>\<open>Register\<close> is a named cell whose \<^verbatim>\<open>registerValue\<close> is a \<^verbatim>\<open>Maybe\<close>: \<open>None\<close> is the
  unset register.
\<close>

record register =
  name :: string
  registerValue :: "rvalue option"

text \<open>
  The mutable part of \<^verbatim>\<open>CompilerVisitor\<close> that evaluation touches: the registers of the
  state variables (\<^verbatim>\<open>vars\<close>), of their next-state versions (\<^verbatim>\<open>nextVars\<close>), the shadow
  register \<^verbatim>\<open>_lastTrace\<close>, and the log \<^verbatim>\<open>runtimeErrors\<close> (source id and message).
  \<^verbatim>\<open>Math.random()\<close> is a global generator: \<open>draws\<close> is the sequence of numbers it is going
  to return and \<open>ndraws\<close> counts the calls made so far.
\<close>

record state =
  vars :: "register list"
  nextVars :: "register list"
  lastTrace :: "rvalue option"
  runtimeErrors :: "(int \<times> string) list"
  draws :: "nat \<Rightarrow> real"
  ndraws :: nat

text \<open>
  A \<^verbatim>\<open>Computable\<close>: \<^verbatim>\<open>eval()\<close> returns a \<^verbatim>\<open>Maybe\<close> and may update the registers. The
  computables that \<^verbatim>\<open>applyFun\<close> builds catch every error thrown below them, and the other
  ones throw none of their own on values that passed the type check, so \<^verbatim>\<open>eval()\<close> itself
  does not throw. The argument registers of a lambda belong to its callable and are not
  part of the state.
\<close>

type_synonym computable = "state \<Rightarrow> rvalue option \<times> state"

definition addRuntimeError :: "int \<Rightarrow> string \<Rightarrow> state \<Rightarrow> state" where
  "addRuntimeError sourceId msg s = s\<lparr>runtimeErrors := runtimeErrors s @ [(sourceId, msg)]\<rparr>"

text \<open>
  \<^verbatim>\<open>values[i]\<close> as \<^verbatim>\<open>recoverVars\<close> reads it. Beyond the end of the array JavaScript
  yields \<^verbatim>\<open>undefined\<close>, which is no \<^verbatim>\<open>Maybe\<close>; every array the source passes is a
  snapshot of the same registers, so that branch is not reached, and the model reads it as
  the unset register.
\<close>

definition valueAt :: "rvalue option list \<Rightarrow> nat \<Rightarrow> rvalue option" where
  "valueAt values i = (if i < length values then values ! i else None)"

definition snapshotRegs :: "register list \<Rightarrow> rvalue option list" where
  "snapshotRegs regs = map registerValue regs"

definition recoverRegs :: "rvalue option list \<Rightarrow> register list \<Rightarrow> register list" where
  "recoverRegs values regs =
     map (\<lambda>(r, i). r\<lparr>registerValue := valueAt values i\<rparr>) (zip regs [0..<length regs])"

definition snapshotVars :: "state \<Rightarrow> rvalue option list" where
  "snapshotVars s = snapshotRegs (vars s)"

definition snapshotNextVars :: "state \<Rightarrow> rvalue option list" where
  "snapshotNextVars s = snapshotRegs (nextVars s)"

definition recoverVars :: "rvalue option list \<Rightarrow> state \<Rightarrow> state" where
  "recoverVars values s = s\<lparr>vars := recoverRegs values (vars s)\<rparr>"

definition recoverNextVars :: "rvalue option list \<Rightarrow> state \<Rightarrow> state" where
  "recoverNextVars values s = s\<lparr>nextVars := recoverRegs values (nextVars s)\<rparr>"

definition shiftVars :: "state \<Rightarrow> state" where
  "shiftVars s =
     (let s1 = recoverVars (snapshotNextVars s) s
      in s1\<lparr>nextVars := map (\<lambda>r. r\<lparr>registerValue := None\<rparr>) (nextVars s1)\<rparr>)"

section \<open>Built-in operators\<close>

text \<open>\<^verbatim>\<open>mkConstComputable\<close>: the computable that always returns the given value.\<close>

definition mkConstComputable :: "rvalue \<Rightarrow> computable" where
  "mkConstComputable v = (\<lambda>s. (Some v, s))"

text \<open>
  Modelled from the spec: \<^verbatim>\<open>fail\<close> of \<^verbatim>\<open>runtime.ts\<close> (not among the sources), the computable
  that yields no value.
\<close>

definition fail :: computable where
  "fail = (\<lambda>s. (None, s))"

text \<open>\<^verbatim>\<open>args.map(a => a.eval())\<close>: every argument is evaluated, left to right.\<close>

fun evalArgs :: "computable list \<Rightarrow> state \<Rightarrow> rvalue option list \<times> state" where
  "evalArgs [] s = ([], s)"
| "evalArgs (a # as) s =
     (case a s of (v, s1) \<Rightarrow> (case evalArgs as s1 of (vs, s2) \<Rightarrow> (v # vs, s2)))"

text \<open>\<^verbatim>\<open>merge\<close> of sweet-monads: all the values when none is missing.\<close>

fun merge :: "'a option list \<Rightarrow> 'a list option" where
  "merge [] = Some []"
| "merge (None # vs) = None"
| "merge (Some v # vs) = (case merge vs of None \<Rightarrow> None | Some ws \<Rightarrow> Some (v # ws))"

text \<open>
  The function given to \<^verbatim>\<open>applyFun\<close> either returns a \<^verbatim>\<open>Maybe\<close> (\<open>Inr\<close>) or throws a
  JavaScript error with a message (\<open>Inl\<close>); it may write to the state before either.
  \<^verbatim>\<open>applyFun\<close> calls it with as many values as the operator has arguments; the last
  equation of each function below is for the lists of another length, which do not occur.
\<close>

type_synonym builtin = "rvalue list \<Rightarrow> state \<Rightarrow> (string + rvalue option) \<times> state"

text \<open>
  \<^verbatim>\<open>applyFun\<close>: the computable built from the last \<open>nargs\<close> computables of the stack (here
  \<open>args\<close>). The \<^verbatim>\<open>catch\<close> turns an error thrown by \<open>fun\<close> into a logged runtime error and no
  value.
\<close>

definition applyFun :: "int \<Rightarrow> computable list \<Rightarrow> builtin \<Rightarrow> computable" where
  "applyFun sourceId args fn = (\<lambda>s.
     case evalArgs args s of (values, s1) \<Rightarrow>
       (case merge values of
          None \<Rightarrow> (None, s1)
        | Some vs \<Rightarrow>
            (case fn vs s1 of
               (Inr r, s2) \<Rightarrow> (r, s2)
             | (Inl msg, s2) \<Rightarrow> (None, addRuntimeError sourceId msg s2))))"

subsection \<open>Integer division, remainder and power\<close>

text \<open>
  On \<^verbatim>\<open>bigint\<close>, \<^verbatim>\<open>/\<close> truncates towards zero (\<open>sdiv\<close>) and \<^verbatim>\<open>%\<close> takes the sign of the
  dividend (\<open>smod\<close>); \<^verbatim>\<open>p % 0n\<close> throws \<^verbatim>\<open>RangeError: Division by zero\<close>. The case
  \<^verbatim>\<open>'imod'\<close> has no test of its own, so that error is what \<^verbatim>\<open>applyFun\<close> catches.
\<close>

fun idiv :: "int \<Rightarrow> builtin" where
  "idiv appId [p, q] s =
     (if toInt q \<noteq> 0 then (Inr (Some (IntV (toInt p sdiv toInt q))), s)
      else (Inr None, addRuntimeError appId ''Division by zero'' s))"
| "idiv appId _ s = (Inr None, s)"

fun imod :: "int \<Rightarrow> builtin" where
  "imod appId [p, q] s =
     (if toInt q = 0 then (Inl ''Division by zero'', s)
      else (Inr (Some (IntV (toInt p smod toInt q))), s))"
| "imod appId _ s = (Inr None, s)"

text \<open>
  \<^verbatim>\<open>p ** q\<close> on \<^verbatim>\<open>bigint\<close>s throws \<^verbatim>\<open>RangeError: Maximum BigInt size exceeded\<close> when the
  power is larger than the engine allows, and \<^verbatim>\<open>applyFun\<close> catches that error too. Which
  powers the engine refuses is fixed by the engine, not by the sources: it is the parameter
  \<open>tooBig\<close>.
\<close>

fun ipow :: "(int \<Rightarrow> int \<Rightarrow> bool) \<Rightarrow> int \<Rightarrow> builtin" where
  "ipow tooBig appId [p, q] s =
     (if toInt q = 0 \<and> toInt p = 0 then (Inr None, addRuntimeError appId ''0^0 is undefined'' s)
      else if toInt q < 0 then (Inr None, addRuntimeError appId ''i^j is undefined for j < 0'' s)
      else if tooBig (toInt p) (toInt q) then (Inl ''Maximum BigInt size exceeded'', s)
      else (Inr (Some (IntV (toInt p ^ nat (toInt q)))), s))"
| "ipow tooBig appId _ s = (Inr None, s)"

text \<open>
  An engine whose \<^verbatim>\<open>bigint\<close>s have at most \<open>2^30\<close> bits, as those of V8 have, refuses the
  powers of a base other than 0, 1 and -1 with an exponent of \<open>2^30\<close> or more (and others,
  with a smaller exponent, that \<open>exponentTooBig\<close> leaves out: it is used at such exponents
  and at small powers only).
\<close>

definition exponentTooBig :: "int \<Rightarrow> int \<Rightarrow> bool" where
  "exponentTooBig p q \<longleftrightarrow> 2 \<le> \<bar>p\<bar> \<and> 2 ^ 30 \<le> q"

subsection \<open>Lists\<close>

text \<open>Modelled from the spec: \<^verbatim>\<open>toList\<close> of \<^verbatim>\<open>runtimeValue.ts\<close>, a coercion as above.\<close>

fun toList :: "rvalue \<Rightarrow> rvalue list" where
  "toList (ListV l) = l"
| "toList (TupV l) = l"
| "toList _ = []"

text \<open>A number in a template string, for the integers the model keeps.\<close>

function showNat :: "nat \<Rightarrow> string" where
  "showNat n = (if n < 10 then [''0123456789'' ! n] else showNat (n div 10) @ [''0123456789'' ! (n mod 10)])"
  by pat_completeness auto
termination
  by (relation "measure id") auto

declare showNat.simps [simp del]

definition showInt :: "int \<Rightarrow> string" where
  "showInt i = (if i < 0 then ''-'' @ showNat (nat (- i)) else showNat (nat i))"

text \<open>
  \<^verbatim>\<open>List.slice(begin, end)\<close> of immutable-js: a negative index counts from the end, both
  are clamped to the list, and an end before the begin gives the empty list.
\<close>

definition resolveIndex :: "int \<Rightarrow> nat \<Rightarrow> nat" where
  "resolveIndex i n = (if i < 0 then nat (max 0 (int n + i)) else min n (nat i))"

definition sliceList :: "rvalue list \<Rightarrow> int \<Rightarrow> int \<Rightarrow> rvalue option" where
  "sliceList l start stop =
     (let b = resolveIndex start (length l); e = resolveIndex stop (length l)
      in Some (ListV (take (e - b) (drop b l))))"

text \<open>
  The case \<^verbatim>\<open>'slice'\<close>. \<^verbatim>\<open>Number(...)\<close> of a \<^verbatim>\<open>bigint\<close> beyond \<open>2^53\<close> rounds to a double;
  the model keeps the integer, which compares with a list size in the same way.
\<close>

fun slice :: "int \<Rightarrow> builtin" where
  "slice appId [list, start, stop] st =
     (let l = toList list; s = toInt start; e = toInt stop
      in if s \<ge> 0 \<and> s < int (length l) \<and> e \<le> int (length l) \<and> e \<ge> s
         then (Inr (sliceList l s e), st)
         else (Inr None,
               addRuntimeError appId
                 (''slice(..., '' @ showInt s @ '', '' @ showInt e
                    @ '') applied to a list of size '' @ showNat (length l)) st))"
| "slice appId _ st = (Inr None, st)"

text \<open>The case \<^verbatim>\<open>'tail'\<close>, which slices without the test of \<^verbatim>\<open>'slice'\<close>.\<close>

fun tail :: "int \<Rightarrow> builtin" where
  "tail appId [list] st =
     (let l = toList list
      in if length l > 0 then (Inr (sliceList l 1 (int (length l))), st)
         else (Inr None, addRuntimeError appId ''Applied tail to an empty list'' st))"
| "tail appId _ st = (Inr None, st)"

subsection \<open>Maps\<close>

text \<open>
  Modelled from the spec: \<^verbatim>\<open>toMap\<close> of \<^verbatim>\<open>runtimeValue.ts\<close>, a coercion as above, and \<^verbatim>\<open>set\<close>
  of an immutable-js map, which replaces the binding of a key or adds one. The keys of a
  map are normal forms; \<^verbatim>\<open>normalForm\<close> is not among the sources and is a parameter \<open>nf\<close>.
\<close>

fun toMap :: "rvalue \<Rightarrow> (rvalue \<times> rvalue) list" where
  "toMap (MapV m) = m"
| "toMap _ = []"

fun mapSet :: "rvalue \<Rightarrow> rvalue \<Rightarrow> (rvalue \<times> rvalue) list \<Rightarrow> (rvalue \<times> rvalue) list" where
  "mapSet k v [] = [(k, v)]"
| "mapSet k v ((k', v') # m) = (if k' = k then (k, v) # m else (k', v') # mapSet k v m)"

definition mapGet :: "rvalue \<Rightarrow> (rvalue \<times> rvalue) list \<Rightarrow> rvalue option" where
  "mapGet k m = map_of m k"

fun put :: "(rvalue \<Rightarrow> rvalue) \<Rightarrow> int \<Rightarrow> builtin" where
  "put nf appId [m, key, newValue] s =
     (let normalKey = nf key; asMap = toMap m; newMap = mapSet normalKey newValue asMap
      in (Inr (Some (MapV newMap)), s))"
| "put nf appId _ s = (Inr None, s)"


section \<open>Boolean and action combinators\<close>

text \<open>
  \<^verbatim>\<open>arg.eval().or(just(rv.mkBool(false))).unwrap()\<close>: the value of an operand, \<^verbatim>\<open>false\<close> when
  it yields none.
\<close>

definition orFalse :: "rvalue option \<Rightarrow> rvalue" where
  "orFalse r = (case r of Some v \<Rightarrow> v | None \<Rightarrow> BoolV False)"

text \<open>
  The loop of \<^verbatim>\<open>translateAnd\<close>; \<open>result\<close> is the variable of that name, which the loop
  overwrites with each operand it evaluates.
\<close>

fun andLoop :: "rvalue option \<Rightarrow> computable list \<Rightarrow> state \<Rightarrow> rvalue option \<times> state" where
  "andLoop result [] s = (result, s)"
| "andLoop result (arg # args) s =
     (case arg s of (r, s1) \<Rightarrow>
        (let boolResult = toBool (orFalse r)
         in if boolResult = False then (Some (orFalse r), s1)
            else andLoop (Some (orFalse r)) args s1))"

definition translateAnd :: "computable list \<Rightarrow> computable" where
  "translateAnd args = andLoop (Some (BoolV True)) args"

fun orLoop :: "rvalue option \<Rightarrow> computable list \<Rightarrow> state \<Rightarrow> rvalue option \<times> state" where
  "orLoop result [] s = (result, s)"
| "orLoop result (arg # args) s =
     (case arg s of (r, s1) \<Rightarrow>
        (let boolResult = toBool (orFalse r)
         in if boolResult = True then (Some (orFalse r), s1)
            else orLoop (Some (orFalse r)) args s1))"

definition translateOr :: "computable list \<Rightarrow> computable" where
  "translateOr args = orLoop (Some (BoolV False)) args"

text \<open>
  \<^verbatim>\<open>chainAllOrThen\<close>. \<open>length actions\<close> in the recursive call is \<^verbatim>\<open>nactionsLeft\<close> after its
  decrement; \<open>saved\<close> is \<^verbatim>\<open>savedValues\<close>.
\<close>

datatype chainKind = All | Then

fun chainLoop ::
  "chainKind \<Rightarrow> rvalue option list \<Rightarrow> rvalue option \<Rightarrow> computable list \<Rightarrow> state
     \<Rightarrow> rvalue option \<times> state" where
  "chainLoop kind saved result [] s = (result, s)"
| "chainLoop kind saved result (action # actions) s =
     (case action s of (r, s1) \<Rightarrow>
        (if (case r of None \<Rightarrow> True | Some v \<Rightarrow> \<not> toBool v) then (r, recoverNextVars saved s1)
         else chainLoop kind saved r actions
                (if kind = Then \<and> length actions > 0 then shiftVars s1 else s1)))"

definition chainAllOrThen :: "computable list \<Rightarrow> chainKind \<Rightarrow> computable" where
  "chainAllOrThen actions kind = (\<lambda>s. chainLoop kind (snapshotNextVars s) (Some (BoolV True)) actions s)"

definition translateAllOrThen :: "string \<Rightarrow> computable list \<Rightarrow> computable" where
  "translateAllOrThen opcode args = chainAllOrThen args (if opcode = ''then'' then Then else All)"

text \<open>
  The arithmetic of \<^verbatim>\<open>Number\<close>s is that of IEEE 754 doubles: the result of a multiplication
  is the real product rounded to the nearest double, to the one with the even significand
  when two are as near. \<open>exponentOf a\<close> is the exponent \<open>e\<close> with \<open>2^e \<le> a < 2^(e+1)\<close> of a
  positive real, \<open>quantum a\<close> the distance of the doubles around it (53 significant bits,
  the exponent at least \<open>-1022\<close>), \<open>roundDouble\<close> the rounding; a real is a double when the
  rounding leaves it as it is. Overflow, beyond \<open>2^1024\<close>, is not modelled: the products of
  this theory are smaller than a number of candidates.
\<close>

definition exponentOf :: "real \<Rightarrow> int" where
  "exponentOf a = (if 1 \<le> a then bitlen \<lfloor>a\<rfloor> - 1 else - bitlen (\<lceil>1 / a\<rceil> - 1))"

definition quantum :: "real \<Rightarrow> real" where
  "quantum a =
     (let e = max (exponentOf a) (- 1022)
      in if 52 \<le> e then 2 ^ nat (e - 52) else 1 / 2 ^ nat (52 - e))"

definition roundHalfEven :: "real \<Rightarrow> int" where
  "roundHalfEven m =
     (let f = \<lfloor>m\<rfloor>
      in if m - of_int f < 1 / 2 then f
         else if 1 / 2 < m - of_int f then f + 1
         else if even f then f else f + 1)"

definition roundDouble :: "real \<Rightarrow> real" where
  "roundDouble y =
     (if y = 0 then 0
      else sgn y * (of_int (roundHalfEven (\<bar>y\<bar> / quantum \<bar>y\<bar>)) * quantum \<bar>y\<bar>))"

definition isDouble :: "real \<Rightarrow> bool" where
  "isDouble x \<longleftrightarrow> roundDouble x = x"

text \<open>\<^verbatim>\<open>Math.random()\<close>: the next number of the generator.\<close>

definition mathRandom :: "state \<Rightarrow> real \<times> state" where
  "mathRandom s = (draws s (ndraws s), s\<lparr>ndraws := ndraws s + 1\<rparr>)"

text \<open>The loop of \<^verbatim>\<open>translateOrAction\<close>, with its array \<^verbatim>\<open>successors\<close>.\<close>

fun orActionLoop ::
  "rvalue option list \<Rightarrow> computable list \<Rightarrow> rvalue option list list \<Rightarrow> state
     \<Rightarrow> rvalue option list list \<times> state" where
  "orActionLoop valuesBefore [] successors s = (successors, s)"
| "orActionLoop valuesBefore (arg # args) successors s =
     (case arg (recoverNextVars valuesBefore s) of (r, s1) \<Rightarrow>
        (let boolResult = toBool (orFalse r)
         in if boolResult = True
            then orActionLoop valuesBefore args (successors @ [snapshotNextVars s1]) s1
            else orActionLoop valuesBefore args successors s1))"

text \<open>
  \<^verbatim>\<open>translateOrAction\<close>. \<^verbatim>\<open>choice\<close> is \<^verbatim>\<open>Math.floor\<close> of the double product
  \<^verbatim>\<open>Math.random() * ncandidates\<close>. \<^verbatim>\<open>Math.random()\<close> is a double of \<open>[0, 1)\<close>, so \<^verbatim>\<open>choice\<close> is
  an index of \<^verbatim>\<open>successors\<close>; for a number outside that interval there is no successor to
  load, and the model leaves the registers as they are.
\<close>

definition translateOrAction :: "computable list \<Rightarrow> computable" where
  "translateOrAction args = (\<lambda>s.
     let valuesBefore = snapshotNextVars s
     in case orActionLoop valuesBefore args [] s of (successors, s1) \<Rightarrow>
          (let ncandidates = length successors
           in if ncandidates = 0 then (Some (BoolV False), recoverNextVars valuesBefore s1)
              else (case mathRandom s1 of (x, s2) \<Rightarrow>
                      (let choice = \<lfloor>roundDouble (x * real ncandidates)\<rfloor>
                       in (Some (BoolV True),
                           if 0 \<le> choice \<and> choice < int ncandidates
                           then recoverNextVars (successors ! nat choice) s2 else s2)))))"


text \<open>
  The case \<^verbatim>\<open>'assign'\<close>: the function given to \<^verbatim>\<open>applyFun\<close> stores the value of \<open>rhs\<close> in the
  next-state register of the variable \<open>x\<close> and returns \<^verbatim>\<open>true\<close>. The compiler finds that
  register by its name in the context (names are unique in a module), and pushes \<^verbatim>\<open>fail\<close>
  when there is none; the registers never change after compilation, so the model looks the
  name up in the state.
\<close>

definition setRegister :: "string \<Rightarrow> rvalue option \<Rightarrow> register list \<Rightarrow> register list" where
  "setRegister x v regs = map (\<lambda>r. if name r = x then r\<lparr>registerValue := v\<rparr> else r) regs"

fun assignFun :: "string \<Rightarrow> builtin" where
  "assignFun x [v] s = (Inr (Some (BoolV True)), s\<lparr>nextVars := setRegister x (Some v) (nextVars s)\<rparr>)"
| "assignFun x _ s = (Inr None, s)"

definition assign :: "int \<Rightarrow> string \<Rightarrow> computable \<Rightarrow> computable" where
  "assign appId x rhs = (\<lambda>s.
     if x \<in> set (map name (nextVars s)) then applyFun appId [rhs] (assignFun x) s else fail s)"

text \<open>
  The words of the specification for \<^verbatim>\<open>actionAny\<close>: every action is evaluated, each
  starting from the pre-snapshot \<open>pre\<close> of the next-state registers. \<open>specAnyRuns\<close> lists, for
  each action in turn, the state it is evaluated in, its result, and the state it leaves;
  \<open>specAnyCollected\<close> are the next-state snapshots of the actions that returned \<^verbatim>\<open>true\<close>.
\<close>

fun specAnyRuns ::
  "rvalue option list \<Rightarrow> computable list \<Rightarrow> state \<Rightarrow> (state \<times> rvalue option \<times> state) list" where
  "specAnyRuns pre [] s = []"
| "specAnyRuns pre (a # as) s =
     (let e = recoverNextVars pre s
      in (e, fst (a e), snd (a e)) # specAnyRuns pre as (snd (a e)))"

definition specAnyCollected :: "(state \<times> rvalue option \<times> state) list \<Rightarrow> rvalue option list list" where
  "specAnyCollected runs =
     map (\<lambda>(e, r, t). snapshotNextVars t) (filter (\<lambda>(e, r, t). r = Some (BoolV True)) runs)"

definition specLastState :: "state \<Rightarrow> (state \<times> rvalue option \<times> state) list \<Rightarrow> state" where
  "specLastState s runs = (if runs = [] then s else snd (snd (last runs)))"


text \<open>
  Registers are allocated by the compiler (\<^verbatim>\<open>exitVar\<close>) and evaluation only assigns their
  values: a computable leaves as many next-state registers as it found.
\<close>

definition keepsRegisters :: "computable \<Rightarrow> bool" where
  "keepsRegisters a \<longleftrightarrow> (\<forall>s. length (nextVars (snd (a s))) = length (nextVars s))"


section \<open>The simulator\<close>

text \<open>
  Modelled from the spec: a register read as a computable (\<^verbatim>\<open>mkRegister\<close> of \<^verbatim>\<open>runtime.ts\<close>
  is not among the sources): it returns the value of the register, and when the register
  is unset it reports the runtime error that \<^verbatim>\<open>exitVar\<close> attaches to it and yields no
  value.
\<close>

definition readVar :: "int \<Rightarrow> string \<Rightarrow> computable" where
  "readVar varId x = (\<lambda>s.
     case find (\<lambda>r. name r = x) (vars s) of
       None \<Rightarrow> fail s
     | Some r \<Rightarrow>
         (case registerValue r of
            Some v \<Rightarrow> (Some v, s)
          | None \<Rightarrow> (None, addRuntimeError varId (''Variable '' @ x @ '' is not set'') s)))"

text \<open>
  The case \<^verbatim>\<open>'eq'\<close>. \<^verbatim>\<open>equals\<close> of \<^verbatim>\<open>runtimeValue.ts\<close> is not among the sources (it is
  structural equality, after the normalisation of sets and maps) and is the parameter
  \<open>equals\<close>.
\<close>

fun eq :: "(rvalue \<Rightarrow> rvalue \<Rightarrow> bool) \<Rightarrow> builtin" where
  "eq equals [x, y] s = (Inr (Some (BoolV (equals x y))), s)"
| "eq equals _ s = (Inr None, s)"

text \<open>\<^verbatim>\<open>isTrue\<close> and \<^verbatim>\<open>varsToRecord\<close>, the local functions of \<^verbatim>\<open>test\<close>.\<close>

definition isTrue :: "rvalue option \<Rightarrow> bool" where
  "isTrue res = (case res of None \<Rightarrow> False | Some v \<Rightarrow> toBool v = True)"

definition varsToRecord :: "state \<Rightarrow> rvalue" where
  "varsToRecord s =
     RecV (map (\<lambda>r. (name r, the (registerValue r)))
            (filter (\<lambda>r. registerValue r \<noteq> None) (vars s)))"

text \<open>\<^verbatim>\<open>this.contextGet(name, ['callable']) ?? fail\<close>, for the callables \<open>ctx\<close> of the context.\<close>

definition callableOrFail :: "(string \<Rightarrow> computable option) \<Rightarrow> string \<Rightarrow> computable" where
  "callableOrFail ctx x = (case ctx x of Some c \<Rightarrow> c | None \<Rightarrow> fail)"

text \<open>
  The inner loop \<^verbatim>\<open>for (let i = 0; !errorFound && i < nsteps; i++)\<close>; \<open>left\<close> is the number
  of iterations that remain, \<open>nsteps - i\<close>.
\<close>

fun stepsLoop ::
  "computable \<Rightarrow> computable \<Rightarrow> nat \<Rightarrow> bool \<Rightarrow> rvalue list \<Rightarrow> state
     \<Rightarrow> bool \<times> rvalue list \<times> state" where
  "stepsLoop next invariant 0 errorFound trace s = (errorFound, trace, s)"
| "stepsLoop next invariant (Suc left) errorFound trace s =
     (if errorFound then (errorFound, trace, s)
      else (case next s of (r, s1) \<Rightarrow>
              if isTrue r
              then (let s2 = shiftVars s1; trace2 = trace @ [varsToRecord s2]
                    in case invariant s2 of (ri, s3) \<Rightarrow> stepsLoop next invariant left (\<not> isTrue ri) trace2 s3)
              else (errorFound, trace, s1)))"

text \<open>
  The body of the outer loop up to the recovery of the registers: one run, which returns
  \<^verbatim>\<open>errorFound\<close> and \<^verbatim>\<open>trace\<close>.
\<close>

definition singleRun ::
  "(string \<Rightarrow> computable option) \<Rightarrow> rvalue \<Rightarrow> rvalue \<Rightarrow> rvalue \<Rightarrow> rvalue \<Rightarrow> state
     \<Rightarrow> bool \<times> rvalue list \<times> state" where
  "singleRun ctx nstepsRes initRes nextRes invRes s =
     (let init = callableOrFail ctx (toStr initRes)
      in case init s of (r, s1) \<Rightarrow>
           if isTrue r
           then (let s2 = shiftVars s1;
                     trace = [varsToRecord s2];
                     invariant = callableOrFail ctx (toStr invRes)
                 in case invariant s2 of (ri, s3) \<Rightarrow>
                      if \<not> isTrue ri then (True, trace, s3)
                      else (let nsteps = toInt nstepsRes;
                                next = callableOrFail ctx (toStr nextRes)
                            in stepsLoop next invariant (nat nsteps) False trace s3))
           else (False, [], s1))"

text \<open>
  The outer loop \<^verbatim>\<open>for (let runNo = 0; !errorFound && runNo < nruns; runNo++)\<close>: \<open>run\<close> is
  its body, after which the registers are recovered from the snapshots \<open>vars0\<close> and
  \<open>nextVars0\<close>.
\<close>

fun runsLoop ::
  "(state \<Rightarrow> bool \<times> rvalue list \<times> state) \<Rightarrow> rvalue option list \<Rightarrow> rvalue option list
     \<Rightarrow> nat \<Rightarrow> bool \<Rightarrow> rvalue list \<Rightarrow> state \<Rightarrow> bool \<times> rvalue list \<times> state" where
  "runsLoop run vars0 nextVars0 0 errorFound trace s = (errorFound, trace, s)"
| "runsLoop run vars0 nextVars0 (Suc left) errorFound trace s =
     (if errorFound then (errorFound, trace, s)
      else (case run s of (e, tr, s1) \<Rightarrow>
              runsLoop run vars0 nextVars0 left e tr (recoverNextVars nextVars0 (recoverVars vars0 s1))))"

text \<open>
  \<^verbatim>\<open>test\<close>: the computable \<^verbatim>\<open>doRun\<close> for the five arguments \<open>args\<close> of \<^verbatim>\<open>_test\<close>. The last
  trace goes to the shadow register \<^verbatim>\<open>_lastTrace\<close>.
\<close>

definition test :: "(string \<Rightarrow> computable option) \<Rightarrow> computable list \<Rightarrow> computable" where
  "test ctx args = (\<lambda>s.
     case evalArgs args s of (values, s0) \<Rightarrow>
       (case merge values of
          Some [nrunsRes, nstepsRes, initRes, nextRes, invRes] \<Rightarrow>
            (let vars0 = snapshotVars s0;
                 nextVars0 = snapshotNextVars s0;
                 nruns = toInt nrunsRes
             in case runsLoop (singleRun ctx nstepsRes initRes nextRes invRes) vars0 nextVars0
                       (nat nruns) False [] s0 of
                  (errorFound, trace, s1) \<Rightarrow>
                    (Some (BoolV (\<not> errorFound)), s1\<lparr>lastTrace := Some (ListV trace)\<rparr>))
        | _ \<Rightarrow> (None, s0)))"




text \<open>
  Two states have the same future when their registers agree and \<^verbatim>\<open>Math.random()\<close> is going
  to return the same numbers in both; they may differ in the runtime errors logged so far
  and in the numbers drawn so far. A computable is replayable when, from two such states,
  it returns the same result and leaves two such states: it reads registers and draws
  numbers, and it only appends to the log.
\<close>

definition sameFuture :: "state \<Rightarrow> state \<Rightarrow> bool" where
  "sameFuture s t \<longleftrightarrow>
     vars s = vars t \<and> nextVars s = nextVars t \<and> lastTrace s = lastTrace t
     \<and> (\<forall>i. draws s (ndraws s + i) = draws t (ndraws t + i))"

definition replayable :: "computable \<Rightarrow> bool" where
  "replayable c \<longleftrightarrow>
     (\<forall>s t. sameFuture s t \<longrightarrow> fst (c s) = fst (c t) \<and> sameFuture (snd (c s)) (snd (c t)))"


section \<open>The counters module\<close>

text \<open>
  The registers of the example module \<^verbatim>\<open>counters\<close>, which declares the single variable
  \<^verbatim>\<open>n\<close>: \<open>cur\<close> and \<open>nxt\<close> are the values of \<^verbatim>\<open>n\<close> and of its next-state register, \<open>ds\<close> the
  numbers that \<^verbatim>\<open>Math.random()\<close> is going to return.
\<close>

definition counters :: "rvalue option \<Rightarrow> rvalue option \<Rightarrow> (nat \<Rightarrow> real) \<Rightarrow> state" where
  "counters cur nxt ds =
     \<lparr>vars = [\<lparr>name = ''n'', registerValue = cur\<rparr>],
      nextVars = [\<lparr>name = ''n'', registerValue = nxt\<rparr>],
      lastTrace = None, runtimeErrors = [], draws = ds, ndraws = 0\<rparr>"


text \<open>
  Callables over the variable \<^verbatim>\<open>n\<close>: \<^verbatim>\<open>Init\<close> is \<^verbatim>\<open>n' = 1\<close>, \<^verbatim>\<open>Step\<close> is \<^verbatim>\<open>n' = 2\<close>,
  \<^verbatim>\<open>AnyInit\<close> is \<^verbatim>\<open>any { n' = 1, n' = 2 }\<close> and \<^verbatim>\<open>IsOne\<close> is \<^verbatim>\<open>n == 1\<close>. The values of \<^verbatim>\<open>n\<close>
  are integers, on which \<^verbatim>\<open>equals\<close> is equality.
\<close>

definition countersCallables :: "string \<Rightarrow> computable option" where
  "countersCallables =
     [''Init'' \<mapsto> assign 1 ''n'' (mkConstComputable (IntV 1)),
      ''Step'' \<mapsto> assign 2 ''n'' (mkConstComputable (IntV 2)),
      ''AnyInit'' \<mapsto> translateOrAction [assign 1 ''n'' (mkConstComputable (IntV 1)),
                                         assign 2 ''n'' (mkConstComputable (IntV 2))],
      ''IsOne'' \<mapsto> applyFun 3 [readVar 0 ''n'', mkConstComputable (IntV 1)] (eq (=))]"

definition testArgs :: "int \<Rightarrow> int \<Rightarrow> string \<Rightarrow> string \<Rightarrow> string \<Rightarrow> computable list" where
  "testArgs nruns nsteps initName nextName invName =
     [mkConstComputable (IntV nruns), mkConstComputable (IntV nsteps),
      mkConstComputable (StrV initName), mkConstComputable (StrV nextName),
      mkConstComputable (StrV invName)]"


section \<open>Snapshots of the registers\<close>

lemma length_recoverRegs [simp]: "length (recoverRegs values regs) = length regs"
  by (simp add: recoverRegs_def)

lemma length_snapshotRegs [simp]: "length (snapshotRegs regs) = length regs"
  by (simp add: snapshotRegs_def)

lemma nth_recoverRegs:
  "i < length regs \<Longrightarrow> recoverRegs values regs ! i = (regs ! i)\<lparr>registerValue := valueAt values i\<rparr>"
  by (simp add: recoverRegs_def)

lemma recoverRegs_snapshotRegs [simp]: "recoverRegs (snapshotRegs regs) regs = regs"
  by (rule nth_equalityI) (simp_all add: nth_recoverRegs valueAt_def snapshotRegs_def)

lemma snapshotRegs_recoverRegs:
  "length values = length regs \<Longrightarrow> snapshotRegs (recoverRegs values regs) = values"
  by (rule nth_equalityI) (simp_all add: nth_recoverRegs valueAt_def snapshotRegs_def)

lemma map_name_recoverRegs [simp]: "map name (recoverRegs values regs) = map name regs"
  by (rule nth_equalityI) (simp_all add: nth_recoverRegs)

text \<open>
  C9. Recovering from a snapshot that was just taken changes nothing: every current-state
  register and every next-state register keeps its value, set or unset. A snapshot that is
  held stays what it was: whatever values the live registers are given afterwards (state
  \<open>s'\<close>, with the same registers), recovering from the snapshot of \<open>s\<close> gives every register
  the value it had in \<open>s\<close>.
\<close>

theorem snapshot_recover_identity:
  "recoverVars (snapshotVars s) s = s
   \<and> recoverNextVars (snapshotNextVars s) s = s
   \<and> (length (vars s') = length (vars s)
        \<longrightarrow> snapshotVars (recoverVars (snapshotVars s) s') = snapshotVars s)
   \<and> (length (nextVars s') = length (nextVars s)
        \<longrightarrow> snapshotNextVars (recoverNextVars (snapshotNextVars s) s') = snapshotNextVars s)"
  by (simp add: recoverVars_def snapshotVars_def recoverNextVars_def snapshotNextVars_def
      snapshotRegs_recoverRegs)

theorem snapshot_recover_identity_witness:
  "snapshotVars (recoverVars (snapshotVars (counters (Some (IntV 3)) None (\<lambda>_. 0)))
      (counters (Some (IntV 5)) (Some (IntV 6)) (\<lambda>_. 0))) = [Some (IntV 3)]
   \<and> snapshotNextVars (recoverNextVars (snapshotNextVars (counters (Some (IntV 3)) None (\<lambda>_. 0)))
      (counters (Some (IntV 5)) (Some (IntV 6)) (\<lambda>_. 0))) = [None]"
  using snapshot_recover_identity [of "counters (Some (IntV 3)) None (\<lambda>_. 0)"
      "counters (Some (IntV 5)) (Some (IntV 6)) (\<lambda>_. 0)"]
  by (simp add: snapshotVars_def snapshotNextVars_def snapshotRegs_def counters_def)

section \<open>Built-in operators: failure and result\<close>

lemma applyFun_consts2:
  "applyFun i [mkConstComputable a, mkConstComputable b] fn s =
     (case fn [a, b] s of (Inr r, s2) \<Rightarrow> (r, s2) | (Inl msg, s2) \<Rightarrow> (None, addRuntimeError i msg s2))"
  by (simp add: applyFun_def mkConstComputable_def)

lemma applyFun_consts3:
  "applyFun i [mkConstComputable a, mkConstComputable b, mkConstComputable c] fn s =
     (case fn [a, b, c] s of (Inr r, s2) \<Rightarrow> (r, s2) | (Inl msg, s2) \<Rightarrow> (None, addRuntimeError i msg s2))"
  by (simp add: applyFun_def mkConstComputable_def)

lemma smod_int_bound: "q \<noteq> 0 \<Longrightarrow> \<bar>(p::int) smod q\<bar> < \<bar>q\<bar>"
  using smod_int_range [of q p] by auto

lemma smod_int_sign: "(0 \<le> p \<longrightarrow> 0 \<le> (p::int) smod q) \<and> (p \<le> 0 \<longrightarrow> p smod q \<le> 0)"
proof (cases "q = 0")
  case True
  then show ?thesis by (simp add: smod_int_alt_def sgn_if)
next
  case False
  then have "0 \<le> \<bar>p\<bar> mod \<bar>q\<bar>" by simp
  then show ?thesis
    by (auto simp: smod_int_alt_def sgn_if)
qed

text \<open>
  C8. Applied to integers \<open>p\<close> and \<open>q\<close>, from a state \<open>s\<close> and at the application \<open>i\<close>:
  \<^verbatim>\<open>idiv\<close> and \<^verbatim>\<open>imod\<close> with \<open>q = 0\<close> yield no value and append the runtime error
  "Division by zero" for \<open>i\<close> to the log of \<open>s\<close> (\<^verbatim>\<open>idiv\<close> by its own test, \<^verbatim>\<open>imod\<close> through
  the error that \<^verbatim>\<open>%\<close> throws and \<^verbatim>\<open>applyFun\<close> catches); \<^verbatim>\<open>ipow\<close> yields no value and appends
  "0^0 is undefined" when \<open>p = 0\<close> and \<open>q = 0\<close>, "i^j is undefined for j < 0" when \<open>q < 0\<close>,
  and, when neither holds and the engine refuses the power as too big, the message
  "Maximum BigInt size exceeded" of the error that \<^verbatim>\<open>**\<close> throws. Otherwise the result is the
  integer itself and the state is \<open>s\<close>, nothing logged: quotient and remainder satisfy
  \<open>q * quotient + remainder = p\<close> with \<open>\<bar>remainder\<bar> < \<bar>q\<bar>\<close> and the remainder on the side of
  \<open>p\<close>, and the power, when the engine does not refuse it, is \<open>p ^ q\<close>.
\<close>

theorem integer_operators_fail_or_exact:
  fixes p q i :: int and s :: state
  defines "args \<equiv> [mkConstComputable (IntV p), mkConstComputable (IntV q)]"
    and "logged \<equiv> \<lambda>msg. s\<lparr>runtimeErrors := runtimeErrors s @ [(i, msg)]\<rparr>"
  shows
  "(q = 0 \<longrightarrow>
      applyFun i args (idiv i) s = (None, logged ''Division by zero'')
    \<and> applyFun i args (imod i) s = (None, logged ''Division by zero''))
   \<and> (q \<noteq> 0 \<longrightarrow>
      applyFun i args (idiv i) s = (Some (IntV (p sdiv q)), s)
    \<and> applyFun i args (imod i) s = (Some (IntV (p smod q)), s)
    \<and> q * (p sdiv q) + p smod q = p \<and> \<bar>p smod q\<bar> < \<bar>q\<bar>
    \<and> (0 \<le> p \<longrightarrow> 0 \<le> p smod q) \<and> (p \<le> 0 \<longrightarrow> p smod q \<le> 0))
   \<and> (p = 0 \<and> q = 0 \<longrightarrow>
      applyFun i args (ipow tooBig i) s = (None, logged ''0^0 is undefined''))
   \<and> (q < 0 \<longrightarrow>
      applyFun i args (ipow tooBig i) s = (None, logged ''i^j is undefined for j < 0''))
   \<and> (\<not> (q < 0 \<or> (p = 0 \<and> q = 0)) \<and> tooBig p q \<longrightarrow>
      applyFun i args (ipow tooBig i) s = (None, logged ''Maximum BigInt size exceeded''))
   \<and> (\<not> (q < 0 \<or> (p = 0 \<and> q = 0)) \<and> \<not> tooBig p q \<longrightarrow>
      applyFun i args (ipow tooBig i) s = (Some (IntV (p ^ nat q)), s))
   \<and> (\<forall>msg. logged msg \<noteq> s \<and> runtimeErrors (logged msg) = runtimeErrors s @ [(i, msg)])"
proof -
  have zero: "q = 0 \<Longrightarrow> applyFun i args (idiv i) s = (None, logged ''Division by zero'')
      \<and> applyFun i args (imod i) s = (None, logged ''Division by zero'')"
    by (simp add: args_def logged_def applyFun_consts2 addRuntimeError_def)
  have nonzero: "q \<noteq> 0 \<Longrightarrow> applyFun i args (idiv i) s = (Some (IntV (p sdiv q)), s)
      \<and> applyFun i args (imod i) s = (Some (IntV (p smod q)), s)"
    by (simp add: args_def applyFun_consts2)
  have powzero: "p = 0 \<and> q = 0 \<Longrightarrow>
      applyFun i args (ipow tooBig i) s = (None, logged ''0^0 is undefined'')"
    by (simp add: args_def logged_def applyFun_consts2 addRuntimeError_def)
  have powneg: "q < 0 \<Longrightarrow>
      applyFun i args (ipow tooBig i) s = (None, logged ''i^j is undefined for j < 0'')"
    by (simp add: args_def logged_def applyFun_consts2 addRuntimeError_def)
  have powbig: "\<not> (q < 0 \<or> (p = 0 \<and> q = 0)) \<and> tooBig p q \<Longrightarrow>
      applyFun i args (ipow tooBig i) s = (None, logged ''Maximum BigInt size exceeded'')"
    by (auto simp add: args_def logged_def applyFun_consts2 addRuntimeError_def)
  have powok: "\<not> (q < 0 \<or> (p = 0 \<and> q = 0)) \<and> \<not> tooBig p q \<Longrightarrow>
      applyFun i args (ipow tooBig i) s = (Some (IntV (p ^ nat q)), s)"
    by (auto simp add: args_def applyFun_consts2)
  have log: "logged msg \<noteq> s \<and> runtimeErrors (logged msg) = runtimeErrors s @ [(i, msg)]" for msg
  proof -
    have "runtimeErrors (logged msg) = runtimeErrors s @ [(i, msg)]"
      by (simp add: logged_def)
    moreover from this have "runtimeErrors (logged msg) \<noteq> runtimeErrors s" by simp
    ultimately show ?thesis by metis
  qed
  show ?thesis
    using zero nonzero powzero powneg powbig powok log smod_int_bound [of q p]
      smod_int_sign [of p q] mult_sdiv_smod_eq [of q p]
    by blast
qed

theorem integer_operators_fail_or_exact_witness:
  "applyFun 7 [mkConstComputable (IntV (-7)), mkConstComputable (IntV 2)] (idiv 7) (counters None None (\<lambda>_. 0))
     = (Some (IntV (-3)), counters None None (\<lambda>_. 0))
   \<and> applyFun 7 [mkConstComputable (IntV (-7)), mkConstComputable (IntV 2)] (imod 7) (counters None None (\<lambda>_. 0))
     = (Some (IntV (-1)), counters None None (\<lambda>_. 0))
   \<and> applyFun 7 [mkConstComputable (IntV (-7)), mkConstComputable (IntV 0)] (idiv 7) (counters None None (\<lambda>_. 0))
     = (None, (counters None None (\<lambda>_. 0))\<lparr>runtimeErrors := [(7, ''Division by zero'')]\<rparr>)
   \<and> applyFun 7 [mkConstComputable (IntV (-7)), mkConstComputable (IntV 0)] (imod 7) (counters None None (\<lambda>_. 0))
     = (None, (counters None None (\<lambda>_. 0))\<lparr>runtimeErrors := [(7, ''Division by zero'')]\<rparr>)
   \<and> applyFun 7 [mkConstComputable (IntV (-7)), mkConstComputable (IntV 2)] (ipow exponentTooBig 7) (counters None None (\<lambda>_. 0))
     = (Some (IntV 49), counters None None (\<lambda>_. 0))
   \<and> applyFun 7 [mkConstComputable (IntV 0), mkConstComputable (IntV 0)] (ipow exponentTooBig 7) (counters None None (\<lambda>_. 0))
     = (None, (counters None None (\<lambda>_. 0))\<lparr>runtimeErrors := [(7, ''0^0 is undefined'')]\<rparr>)
   \<and> applyFun 7 [mkConstComputable (IntV 2), mkConstComputable (IntV (-7))] (ipow exponentTooBig 7) (counters None None (\<lambda>_. 0))
     = (None, (counters None None (\<lambda>_. 0))\<lparr>runtimeErrors := [(7, ''i^j is undefined for j < 0'')]\<rparr>)
   \<and> applyFun 7 [mkConstComputable (IntV 2), mkConstComputable (IntV 1073741824)] (ipow exponentTooBig 7) (counters None None (\<lambda>_. 0))
     = (None, (counters None None (\<lambda>_. 0))\<lparr>runtimeErrors := [(7, ''Maximum BigInt size exceeded'')]\<rparr>)"
proof -
  note big = integer_operators_fail_or_exact [where p = 2 and q = 1073741824 and i = 7
      and s = "counters None None (\<lambda>_. 0)" and tooBig = exponentTooBig,
      THEN conjunct2, THEN conjunct2, THEN conjunct2, THEN conjunct2, THEN conjunct1]
  have "applyFun 7 [mkConstComputable (IntV 2), mkConstComputable (IntV 1073741824)]
      (ipow exponentTooBig 7) (counters None None (\<lambda>_. 0))
     = (None, (counters None None (\<lambda>_. 0))\<lparr>runtimeErrors := [(7, ''Maximum BigInt size exceeded'')]\<rparr>)"
    using big by (simp add: exponentTooBig_def counters_def)
  then show ?thesis
    using
      integer_operators_fail_or_exact [where p = "-7" and q = 2 and i = 7
        and s = "counters None None (\<lambda>_. 0)" and tooBig = exponentTooBig]
      integer_operators_fail_or_exact [where p = "-7" and q = 0 and i = 7
        and s = "counters None None (\<lambda>_. 0)" and tooBig = exponentTooBig]
      integer_operators_fail_or_exact [where p = 0 and q = 0 and i = 7
        and s = "counters None None (\<lambda>_. 0)" and tooBig = exponentTooBig]
      integer_operators_fail_or_exact [where p = 2 and q = "-7" and i = 7
        and s = "counters None None (\<lambda>_. 0)" and tooBig = exponentTooBig]
    by (simp add: exponentTooBig_def counters_def)
qed

text \<open>
  The power of C8 is not returned for every exponent \<open>q \<ge> 0\<close>: on an engine that refuses the
  exponents from \<open>2^30\<close> on, \<^verbatim>\<open>2 ** 4611686018427387904\<close> (the exponent is \<open>2^62\<close>) yields no
  value and logs the error "Maximum BigInt size exceeded".
\<close>

theorem ipow_too_big_counterexample:
  "applyFun 7 [mkConstComputable (IntV 2), mkConstComputable (IntV 4611686018427387904)]
      (ipow exponentTooBig 7) (counters None None (\<lambda>_. 0))
     = (None, (counters None None (\<lambda>_. 0))\<lparr>runtimeErrors := [(7, ''Maximum BigInt size exceeded'')]\<rparr>)"
  by (simp add: applyFun_consts2 exponentTooBig_def addRuntimeError_def counters_def)

lemma slice_result:
  "applyFun i [mkConstComputable (ListV l), mkConstComputable (IntV b), mkConstComputable (IntV e)]
     (slice i) s =
   (if 0 \<le> b \<and> b < int (length l) \<and> b \<le> e \<and> e \<le> int (length l)
    then (Some (ListV (take (nat e - nat b) (drop (nat b) l))), s)
    else (None, addRuntimeError i
            (''slice(..., '' @ showInt b @ '', '' @ showInt e
               @ '') applied to a list of size '' @ showNat (length l)) s))"
  by (auto simp add: applyFun_consts3 sliceList_def resolveIndex_def Let_def min_def)

text \<open>
  C7. \<^verbatim>\<open>slice(l, s, e)\<close> where \<open>s = e = size(l)\<close> satisfies \<open>0 \<le> s \<le> e \<le> size(l)\<close>, yet the
  test of the case \<^verbatim>\<open>'slice'\<close> asks for \<open>s < size(l)\<close>: on the empty list \<^verbatim>\<open>slice(l, 0, 0)\<close>
  yields no value and logs a runtime error. The case \<^verbatim>\<open>'tail'\<close> takes that very slice of a
  one-element list, from 1 to 1, and returns the empty list.
\<close>

theorem slice_start_at_size_fails:
  "applyFun i [mkConstComputable (ListV []), mkConstComputable (IntV 0), mkConstComputable (IntV 0)]
     (slice i) s =
   (None, addRuntimeError i ''slice(..., 0, 0) applied to a list of size 0'' s)
   \<and> applyFun i [mkConstComputable (ListV [x])] (tail i) s = (Some (ListV []), s)"
  by (simp add: applyFun_consts3 applyFun_def mkConstComputable_def sliceList_def resolveIndex_def
      showInt_def showNat.simps)

lemma map_of_mapSet: "map_of (mapSet k v m) k' = (if k' = k then Some v else map_of m k')"
  by (induction m) auto

text \<open>
  C10. \<^verbatim>\<open>put(m, k, v)\<close> on arguments that have values always returns a map and logs
  nothing; the map binds (the normal form of) \<open>k\<close> to \<open>v\<close>, whether \<open>k\<close> was a key of \<open>m\<close> or
  not, and every other key is bound as in \<open>m\<close>.
\<close>

theorem put_succeeds_and_binds:
  "evalArgs args s = ([Some m, Some k, Some v], s1) \<longrightarrow>
     applyFun i args (put nf i) s = (Some (MapV (mapSet (nf k) v (toMap m))), s1)
     \<and> mapGet (nf k) (mapSet (nf k) v (toMap m)) = Some v
     \<and> (\<forall>k'. k' \<noteq> nf k \<longrightarrow> mapGet k' (mapSet (nf k) v (toMap m)) = mapGet k' (toMap m))"
  by (simp add: applyFun_def mapGet_def map_of_mapSet)

theorem put_succeeds_and_binds_witness:
  "applyFun 1 [mkConstComputable (MapV [(IntV 1, StrV ''a''), (IntV 2, StrV ''b'')]),
               mkConstComputable (IntV 2), mkConstComputable (StrV ''c'')] (put (\<lambda>v. v) 1)
       (counters None None (\<lambda>_. 0))
     = (Some (MapV [(IntV 1, StrV ''a''), (IntV 2, StrV ''c'')]), counters None None (\<lambda>_. 0))"
  using put_succeeds_and_binds [of "[mkConstComputable (MapV [(IntV 1, StrV ''a''), (IntV 2, StrV ''b'')]),
               mkConstComputable (IntV 2), mkConstComputable (StrV ''c'')]" "counters None None (\<lambda>_. 0)"
       "MapV [(IntV 1, StrV ''a''), (IntV 2, StrV ''b'')]" "IntV 2" "StrV ''c''"
       "counters None None (\<lambda>_. 0)" 1 "\<lambda>v. v"]
  by (simp add: mkConstComputable_def)


section \<open>Evaluation in the counters module\<close>

lemma mkConstComputable_apply: "mkConstComputable v s = (Some v, s)"
  by (simp add: mkConstComputable_def)

lemma assign_const:
  "assign i ''n'' (mkConstComputable v) (counters cur nxt ds) = (Some (BoolV True), counters cur (Some v) ds)"
  by (simp add: assign_def applyFun_def mkConstComputable_def counters_def setRegister_def)

lemma recoverNextVars_counters:
  "recoverNextVars [v] (counters cur nxt ds) = counters cur v ds"
  by (simp add: recoverNextVars_def recoverRegs_def counters_def valueAt_def)

lemma snapshotNextVars_counters: "snapshotNextVars (counters cur nxt ds) = [nxt]"
  by (simp add: snapshotNextVars_def snapshotRegs_def counters_def)

lemma addRuntimeError_nextVars [simp]: "nextVars (addRuntimeError i m s) = nextVars s"
  by (simp add: addRuntimeError_def)

lemma keepsRegisters_assign_const: "keepsRegisters (assign i x (mkConstComputable v))"
  by (simp add: keepsRegisters_def assign_def applyFun_def mkConstComputable_def setRegister_def
      fail_def)

lemma keepsRegisters_const: "keepsRegisters (mkConstComputable v)"
  by (simp add: keepsRegisters_def mkConstComputable_def)







section \<open>Short-circuit of the Boolean combinators\<close>

lemma toBool_iff: "toBool v \<longleftrightarrow> v = BoolV True"
  by (cases v) auto

lemma toBool_orFalse_iff: "toBool (orFalse r) \<longleftrightarrow> r = Some (BoolV True)"
  by (cases r) (auto simp: orFalse_def toBool_iff)

lemma andLoop_prefix:
  "evalArgs pre s = (rs, s1) \<Longrightarrow> \<forall>r \<in> set rs. r = Some (BoolV True) \<Longrightarrow>
   andLoop res (pre @ rest) s = andLoop (if pre = [] then res else Some (BoolV True)) rest s1"
proof (induction pre arbitrary: s rs res)
  case Nil
  then show ?case by simp
next
  case (Cons a pre)
  obtain r0 t0 where a: "a s = (r0, t0)" by (cases "a s")
  obtain rs' t1 where e: "evalArgs pre t0 = (rs', t1)" by (cases "evalArgs pre t0")
  from Cons.prems a e have rs: "rs = r0 # rs'" and s1: "s1 = t1" by auto
  with Cons.prems have r0: "r0 = Some (BoolV True)" and all: "\<forall>r \<in> set rs'. r = Some (BoolV True)"
    by auto
  from Cons.IH [OF e [unfolded s1 [symmetric]] all]
  show ?case using a r0 by (cases pre) (auto simp: orFalse_def)
qed

lemma orLoop_prefix:
  "evalArgs pre s = (rs, s1) \<Longrightarrow> \<forall>r \<in> set rs. r = None \<or> r = Some (BoolV False) \<Longrightarrow>
   orLoop res (pre @ rest) s = orLoop (if pre = [] then res else Some (BoolV False)) rest s1"
proof (induction pre arbitrary: s rs res)
  case Nil
  then show ?case by simp
next
  case (Cons a pre)
  obtain r0 t0 where a: "a s = (r0, t0)" by (cases "a s")
  obtain rs' t1 where e: "evalArgs pre t0 = (rs', t1)" by (cases "evalArgs pre t0")
  from Cons.prems a e have rs: "rs = r0 # rs'" and s1: "s1 = t1" by auto
  with Cons.prems have r0: "r0 = None \<or> r0 = Some (BoolV False)"
    and all: "\<forall>r \<in> set rs'. r = None \<or> r = Some (BoolV False)"
    by auto
  from Cons.IH [OF e [unfolded s1 [symmetric]] all]
  show ?case using a r0 by (cases pre) (auto simp: orFalse_def)
qed

text \<open>
  C5. Operands are evaluated left to right. When the operands \<open>pre\<close> all return \<^verbatim>\<open>true\<close> and
  the next one, \<open>a\<close>, returns \<^verbatim>\<open>false\<close> or yields no value, \<^verbatim>\<open>and\<close> returns \<^verbatim>\<open>false\<close> in the
  state that \<open>a\<close> left: the operands \<open>post\<close> are not evaluated, whatever they are. When the
  operands \<open>pre\<close> all return \<^verbatim>\<open>false\<close> or yield no value and \<open>a\<close> returns \<^verbatim>\<open>true\<close>, \<^verbatim>\<open>or\<close>
  returns \<^verbatim>\<open>true\<close> in the state that \<open>a\<close> left. With no such operand, \<^verbatim>\<open>and\<close> returns \<^verbatim>\<open>true\<close>
  and \<^verbatim>\<open>or\<close> returns \<^verbatim>\<open>false\<close>. In particular \<^verbatim>\<open>and { false, diverge }\<close> is \<^verbatim>\<open>false\<close> and
  \<^verbatim>\<open>or { true, diverge }\<close> is \<^verbatim>\<open>true\<close>, in the unchanged state, for every computable
  \<open>diverge\<close>.
\<close>

theorem and_or_short_circuit:
  "(evalArgs pre s = (rs, s1) \<and> (\<forall>r \<in> set rs. r = Some (BoolV True))
      \<and> a s1 = (r, s2) \<and> (r = None \<or> r = Some (BoolV False))
      \<longrightarrow> translateAnd (pre @ a # post) s = (Some (BoolV False), s2))
   \<and> (evalArgs pre s = (rs, s1) \<and> (\<forall>r \<in> set rs. r = None \<or> r = Some (BoolV False))
      \<and> a s1 = (Some (BoolV True), s2)
      \<longrightarrow> translateOr (pre @ a # post) s = (Some (BoolV True), s2))
   \<and> (evalArgs pre s = (rs, s1) \<and> (\<forall>r \<in> set rs. r = Some (BoolV True))
      \<longrightarrow> translateAnd pre s = (Some (BoolV True), s1))
   \<and> (evalArgs pre s = (rs, s1) \<and> (\<forall>r \<in> set rs. r = None \<or> r = Some (BoolV False))
      \<longrightarrow> translateOr pre s = (Some (BoolV False), s1))
   \<and> translateAnd [mkConstComputable (BoolV False), diverge] s = (Some (BoolV False), s)
   \<and> translateOr [mkConstComputable (BoolV True), diverge] s = (Some (BoolV True), s)"
proof -
  have c1: "translateAnd (pre @ a # post) s = (Some (BoolV False), s2)"
    if "evalArgs pre s = (rs, s1)" "\<forall>r \<in> set rs. r = Some (BoolV True)"
      "a s1 = (r, s2)" "r = None \<or> r = Some (BoolV False)"
    using andLoop_prefix [OF that(1,2), of "Some (BoolV True)" "a # post"] that(3,4)
    by (auto simp: translateAnd_def orFalse_def)
  have c2: "translateOr (pre @ a # post) s = (Some (BoolV True), s2)"
    if "evalArgs pre s = (rs, s1)" "\<forall>r \<in> set rs. r = None \<or> r = Some (BoolV False)"
      "a s1 = (Some (BoolV True), s2)"
    using orLoop_prefix [OF that(1,2), of "Some (BoolV False)" "a # post"] that(3)
    by (auto simp: translateOr_def orFalse_def)
  have c3: "translateAnd pre s = (Some (BoolV True), s1)"
    if "evalArgs pre s = (rs, s1)" "\<forall>r \<in> set rs. r = Some (BoolV True)"
    using andLoop_prefix [OF that(1,2), of "Some (BoolV True)" "[]"]
    by (auto simp: translateAnd_def)
  have c4: "translateOr pre s = (Some (BoolV False), s1)"
    if "evalArgs pre s = (rs, s1)" "\<forall>r \<in> set rs. r = None \<or> r = Some (BoolV False)"
    using orLoop_prefix [OF that(1,2), of "Some (BoolV False)" "[]"]
    by (auto simp: translateOr_def)
  have c5: "translateAnd [mkConstComputable (BoolV False), diverge] s = (Some (BoolV False), s)"
    by (simp add: translateAnd_def mkConstComputable_def orFalse_def)
  have c6: "translateOr [mkConstComputable (BoolV True), diverge] s = (Some (BoolV True), s)"
    by (simp add: translateOr_def mkConstComputable_def orFalse_def)
  show ?thesis using c1 c2 c3 c4 c5 c6 by blast
qed

theorem and_or_short_circuit_witness:
  "translateAnd [mkConstComputable (BoolV True), mkConstComputable (BoolV False),
       applyFun 5 [mkConstComputable (IntV 1), mkConstComputable (IntV 0)] (idiv 5)]
     (counters None None (\<lambda>_. 0)) = (Some (BoolV False), counters None None (\<lambda>_. 0))
   \<and> translateOr [applyFun 5 [mkConstComputable (IntV 1), mkConstComputable (IntV 0)] (idiv 5),
       mkConstComputable (BoolV True), mkConstComputable (BoolV False)]
     (counters None None (\<lambda>_. 0))
     = (Some (BoolV True), addRuntimeError 5 ''Division by zero'' (counters None None (\<lambda>_. 0)))"
  using and_or_short_circuit [of "[mkConstComputable (BoolV True)]" "counters None None (\<lambda>_. 0)"
      "[Some (BoolV True)]" "counters None None (\<lambda>_. 0)" "mkConstComputable (BoolV False)"
      "Some (BoolV False)" "counters None None (\<lambda>_. 0)"
      "[applyFun 5 [mkConstComputable (IntV 1), mkConstComputable (IntV 0)] (idiv 5)]"]
    and_or_short_circuit [of "[applyFun 5 [mkConstComputable (IntV 1), mkConstComputable (IntV 0)] (idiv 5)]"
      "counters None None (\<lambda>_. 0)" "[None]"
      "addRuntimeError 5 ''Division by zero'' (counters None None (\<lambda>_. 0))"
      "mkConstComputable (BoolV True)" "Some (BoolV True)"
      "addRuntimeError 5 ''Division by zero'' (counters None None (\<lambda>_. 0))"
      "[mkConstComputable (BoolV False)]"]
  by (simp add: applyFun_consts2) (simp add: mkConstComputable_def)


section \<open>Rounding to doubles\<close>

lemma quantum_powi: "quantum a = 2 powi (max (exponentOf a) (- 1022) - 52)"
  by (simp add: quantum_def power_int_def Let_def field_simps)

lemma bitlen_numeral_simps:
  "bitlen 1 = 1"
  "bitlen (numeral (Num.Bit0 n)) = bitlen (numeral n) + 1"
  "bitlen (numeral (Num.Bit1 n)) = bitlen (numeral n) + 1"
proof -
  show "bitlen 1 = 1" by (simp add: bitlen_alt_def)
  have d: "bitlen x = bitlen (x div 2) + 1" if "x > 0" for x
    using that compute_floorlog [of 2 "nat x"]
    by (simp add: bitlen_def nat_div_distrib)
  show "bitlen (numeral (Num.Bit0 n)) = bitlen (numeral n) + 1"
    using d [of "numeral (Num.Bit0 n)"] by simp
  show "bitlen (numeral (Num.Bit1 n)) = bitlen (numeral n) + 1"
    using d [of "numeral (Num.Bit1 n)"] by simp
qed

lemma exponentOf_lower: "0 < a \<Longrightarrow> 2 powi exponentOf a \<le> a"
proof (cases "1 \<le> a")
  case True
  then have pos: "0 < \<lfloor>a\<rfloor>" by linarith
  from bitlen_bounds [OF pos] have "2 ^ nat (bitlen \<lfloor>a\<rfloor> - 1) \<le> \<lfloor>a\<rfloor>" by simp
  then have "(2::real) ^ nat (bitlen \<lfloor>a\<rfloor> - 1) \<le> of_int \<lfloor>a\<rfloor>"
    by (metis of_int_le_iff of_int_numeral of_int_power)
  also have "\<dots> \<le> a" by simp
  finally have "(2::real) ^ nat (bitlen \<lfloor>a\<rfloor> - 1) \<le> a" .
  moreover have "1 \<le> bitlen \<lfloor>a\<rfloor>" using pos by (simp add: bitlen_alt_def)
  ultimately show ?thesis using True by (simp add: exponentOf_def power_int_def)
next
  case False
  assume a: "0 < a"
  with False have "1 < 1 / a" by simp
  then have k: "0 < \<lceil>1 / a\<rceil> - 1" by linarith
  let ?b = "bitlen (\<lceil>1 / a\<rceil> - 1)"
  from bitlen_bounds [OF k] have "\<lceil>1 / a\<rceil> - 1 < 2 ^ nat ?b" by simp
  then have "\<lceil>1 / a\<rceil> \<le> 2 ^ nat ?b" by linarith
  then have "of_int \<lceil>1 / a\<rceil> \<le> (2::real) ^ nat ?b"
    by (metis of_int_le_iff of_int_numeral of_int_power)
  then have "1 / a \<le> 2 ^ nat ?b" by linarith
  then have "1 / 2 ^ nat ?b \<le> a" using a
    by (simp add: field_simps)
  moreover have "0 \<le> ?b" by (rule bitlen_nonneg)
  ultimately show ?thesis using False
    by (cases "?b = 0") (simp_all add: exponentOf_def power_int_def field_simps)
qed

lemma exponentOf_upper: "0 < a \<Longrightarrow> a < 2 powi (exponentOf a + 1)"
proof (cases "1 \<le> a")
  case True
  then have pos: "0 < \<lfloor>a\<rfloor>" by linarith
  from bitlen_bounds [OF pos] have "\<lfloor>a\<rfloor> < 2 ^ nat (bitlen \<lfloor>a\<rfloor>)" by simp
  then have "\<lfloor>a\<rfloor> + 1 \<le> 2 ^ nat (bitlen \<lfloor>a\<rfloor>)" by linarith
  then have "of_int (\<lfloor>a\<rfloor> + 1) \<le> (2::real) ^ nat (bitlen \<lfloor>a\<rfloor>)"
    by (metis of_int_le_iff of_int_numeral of_int_power)
  moreover have "a < of_int (\<lfloor>a\<rfloor> + 1)" by linarith
  ultimately have "a < 2 ^ nat (bitlen \<lfloor>a\<rfloor>)" by linarith
  moreover have "0 \<le> bitlen \<lfloor>a\<rfloor>" by (rule bitlen_nonneg)
  ultimately show ?thesis using True by (simp add: exponentOf_def power_int_def)
next
  case False
  assume a: "0 < a"
  with False have "1 < 1 / a" by simp
  then have k: "0 < \<lceil>1 / a\<rceil> - 1" by linarith
  let ?b = "bitlen (\<lceil>1 / a\<rceil> - 1)"
  have b1: "1 \<le> ?b" using k by (simp add: bitlen_alt_def)
  from bitlen_bounds [OF k] have "2 ^ nat (?b - 1) \<le> \<lceil>1 / a\<rceil> - 1" by simp
  then have "(2::real) ^ nat (?b - 1) \<le> of_int (\<lceil>1 / a\<rceil> - 1)"
    by (metis of_int_le_iff of_int_numeral of_int_power)
  moreover have "of_int (\<lceil>1 / a\<rceil> - 1) < 1 / a" by linarith
  ultimately have "2 ^ nat (?b - 1) < 1 / a" by linarith
  then have lt: "a < 1 / 2 ^ nat (?b - 1)" using a by (simp add: field_simps)
  have "- ?b + 1 \<le> 0" using b1 by simp
  then have "(2::real) powi (- ?b + 1) = 1 / 2 ^ nat (?b - 1)"
    by (cases "?b = 1") (simp_all add: power_int_def field_simps)
  with lt show ?thesis using False by (simp add: exponentOf_def)
qed

lemma roundHalfEven_ge: "of_int j \<le> m \<Longrightarrow> j \<le> roundHalfEven m"
proof -
  assume "of_int j \<le> m"
  then have "j \<le> \<lfloor>m\<rfloor>" by (simp add: le_floor_iff)
  then show ?thesis by (simp add: roundHalfEven_def Let_def)
qed

lemma roundHalfEven_le: "m \<le> of_int j \<Longrightarrow> roundHalfEven m \<le> j"
proof -
  assume a: "m \<le> of_int j"
  have f: "\<lfloor>m\<rfloor> \<le> j" using a by (simp add: floor_le_iff)
  show ?thesis
  proof (cases "m = of_int \<lfloor>m\<rfloor>")
    case True
    then have "m - of_int \<lfloor>m\<rfloor> < 1 / 2" by simp
    then show ?thesis using f by (simp add: roundHalfEven_def Let_def)
  next
    case False
    then have "of_int \<lfloor>m\<rfloor> < m" using of_int_floor_le [of m] by linarith
    with a have "of_int \<lfloor>m\<rfloor> < (of_int j :: real)" by linarith
    then have "\<lfloor>m\<rfloor> < j" by simp
    then show ?thesis by (simp add: roundHalfEven_def Let_def)
  qed
qed

lemma roundHalfEven_half: "of_int (roundHalfEven m) \<le> m + 1 / 2"
proof (cases "m - of_int \<lfloor>m\<rfloor> < 1 / 2")
  case True
  then have "roundHalfEven m = \<lfloor>m\<rfloor>" by (simp add: roundHalfEven_def Let_def)
  then have "of_int (roundHalfEven m) = (of_int \<lfloor>m\<rfloor> :: real)" by simp
  then show ?thesis using of_int_floor_le [of m] by linarith
next
  case False
  have "roundHalfEven m \<le> \<lfloor>m\<rfloor> + 1" by (simp add: roundHalfEven_def Let_def)
  then have "(of_int (roundHalfEven m) :: real) \<le> of_int (\<lfloor>m\<rfloor> + 1)" by (simp only: of_int_le_iff)
  then have "of_int (roundHalfEven m) \<le> of_int \<lfloor>m\<rfloor> + (1::real)" by simp
  with False show ?thesis by linarith
qed

lemma powi_less_imp_less: "(2::real) powi m < 2 powi n \<Longrightarrow> m < n"
  using power_int_increasing [of n m "2::real"] by (cases "m < n") auto

lemma quantum_grid:
  assumes "0 < a" "a < 2 ^ 53"
  shows "\<exists>t::nat. quantum a = 1 / 2 ^ t"
proof -
  have "2 powi exponentOf a \<le> a" using exponentOf_lower [OF assms(1)] .
  also have "a < 2 powi 53" using assms(2) by simp
  finally have "exponentOf a < 53"
    by (rule powi_less_imp_less)
  then have "max (exponentOf a) (- 1022) \<le> 52" by simp
  then show ?thesis
  proof (cases "max (exponentOf a) (- 1022) = 52")
    case True
    then have "quantum a = 1 / 2 ^ 0" by (simp add: quantum_def Let_def)
    then show ?thesis by blast
  next
    case False
    with \<open>max (exponentOf a) (- 1022) \<le> 52\<close>
    have "quantum a = 1 / 2 ^ nat (52 - max (exponentOf a) (- 1022))"
      by (simp add: quantum_def Let_def)
    then show ?thesis by blast
  qed
qed

lemma quantum_small:
  assumes "0 < a"
  shows "quantum a * 2 ^ 52 \<le> a \<or> quantum a * 2 ^ 52 < 1"
proof (cases "- 1022 \<le> exponentOf a")
  case True
  then have "quantum a = 2 powi (exponentOf a - 52)" by (simp add: quantum_powi max_def)
  then have "quantum a * 2 ^ 52 = 2 powi (exponentOf a - 52) * 2 powi 52" by simp
  also have "\<dots> = 2 powi exponentOf a"
    by (simp add: power_int_add [symmetric] del: power_int_numeral)
  finally show ?thesis using exponentOf_lower [OF assms] by simp
next
  case False
  then have "quantum a = 2 powi (- 1074)" by (simp add: quantum_powi max_def)
  then have "quantum a * 2 ^ 52 = 2 powi (- 1074) * 2 powi 52" by simp
  also have "\<dots> = 2 powi (- 1074 + 52)"
    by (rule power_int_add [symmetric]) simp
  also have "\<dots> < 2 powi 0"
    by (rule power_int_strict_increasing) simp_all
  finally show ?thesis by simp
qed

lemma roundDouble_floor:
  assumes "0 \<le> y" "y < 2 ^ 53"
  shows "of_int \<lfloor>y\<rfloor> \<le> roundDouble y \<and> roundDouble y \<le> of_int \<lfloor>y\<rfloor> + 1"
proof (cases "y = 0")
  case True
  then show ?thesis by (simp add: roundDouble_def)
next
  case False
  with assms have pos: "0 < y" by simp
  from quantum_grid [OF pos assms(2)] obtain t :: nat where q: "quantum y = 1 / 2 ^ t" by blast
  let ?m = "y * 2 ^ t"
  have rd: "roundDouble y = of_int (roundHalfEven ?m) / 2 ^ t"
    using pos by (simp add: roundDouble_def q)
  have "of_int (\<lfloor>y\<rfloor> * 2 ^ t) \<le> ?m"
    using of_int_floor_le [of y] by (simp add: mult_right_mono)
  from roundHalfEven_ge [OF this] have "of_int (\<lfloor>y\<rfloor> * 2 ^ t) \<le> (of_int (roundHalfEven ?m) :: real)"
    by (simp only: of_int_le_iff)
  then have lo: "of_int \<lfloor>y\<rfloor> \<le> roundDouble y"
    by (simp add: rd field_simps)
  have "y \<le> of_int (\<lfloor>y\<rfloor> + 1)" by linarith
  then have "?m \<le> of_int ((\<lfloor>y\<rfloor> + 1) * 2 ^ t)"
    by (simp add: mult_right_mono del: of_int_add)
  from roundHalfEven_le [OF this]
  have "(of_int (roundHalfEven ?m) :: real) \<le> of_int ((\<lfloor>y\<rfloor> + 1) * 2 ^ t)"
    by (simp only: of_int_le_iff)
  then have hi: "roundDouble y \<le> of_int \<lfloor>y\<rfloor> + 1"
    by (simp add: rd field_simps)
  from lo hi show ?thesis by simp
qed

lemma isDouble_below_one:
  assumes d: "isDouble x" and x: "0 \<le> x" "x < 1"
  shows "x \<le> 1 - 1 / 2 ^ 53"
proof (cases "x < 1 / 2")
  case True
  have "(1::real) / 2 ^ 53 \<le> 1 / 2" by simp
  with True show ?thesis by linarith
next
  case False
  then have pos: "0 < x" by simp
  have "2 powi exponentOf x \<le> x" using exponentOf_lower [OF pos] .
  also have "x < 2 powi 0" using x(2) by simp
  finally have e0: "exponentOf x < 0" by (rule powi_less_imp_less)
  have "(2::real) powi (- 1) \<le> x" using False by (simp add: power_int_def)
  also have "x < 2 powi (exponentOf x + 1)" using exponentOf_upper [OF pos] .
  finally have "- 1 < exponentOf x + 1" by (rule powi_less_imp_less)
  with e0 have e: "exponentOf x = - 1" by simp
  then have q: "quantum x = 1 / 2 ^ 53" by (simp add: quantum_def Let_def)
  let ?r = "roundHalfEven (x * 2 ^ 53)"
  from d pos have xr: "x = of_int ?r / 2 ^ 53"
    by (simp add: isDouble_def roundDouble_def q)
  with x(2) have "of_int ?r < (2::real) ^ 53" by (simp add: field_simps)
  then have "of_int ?r < (of_int (2 ^ 53) :: real)" by simp
  then have "?r < 2 ^ 53" by (simp only: of_int_less_iff)
  then have "?r \<le> 2 ^ 53 - 1" by simp
  then have "(of_int ?r :: real) \<le> of_int (2 ^ 53 - 1)" by (simp only: of_int_le_iff)
  then have "(of_int ?r :: real) \<le> 2 ^ 53 - 1" by simp
  then have "of_int ?r / 2 ^ 53 \<le> ((2::real) ^ 53 - 1) / 2 ^ 53"
    by (simp add: divide_right_mono)
  also have "\<dots> = 1 - 1 / 2 ^ 53" by (simp add: field_simps)
  finally show ?thesis using xr by simp
qed

lemma roundDouble_below:
  assumes x: "0 \<le> x" "x \<le> 1 - 1 / 2 ^ 53" and n: "1 \<le> n" "n < 2 ^ 53"
  shows "roundDouble (x * real n) < real n"
proof (cases "x * real n = 0")
  case True
  then show ?thesis using n by (simp add: roundDouble_def)
next
  case False
  define y where "y = x * real n"
  have rn: "0 < real n" using n by simp
  from False have "x \<noteq> 0" by auto
  with x(1) have "0 < x" by simp
  then have pos: "0 < y" unfolding y_def using rn by (rule mult_pos_pos)
  have "(0::real) < 1 / 2 ^ 53" by simp
  with x(2) have "x < 1" by linarith
  then have ylt: "y < real n" using rn by (simp add: y_def)
  from n(2) have "real n < real (2 ^ 53)" by (simp only: of_nat_less_iff)
  then have "real n < 2 ^ 53" by simp
  with ylt have y53: "y < 2 ^ 53" by linarith
  from quantum_grid [OF pos y53] obtain t :: nat where q: "quantum y = 1 / 2 ^ t" by blast
  define N where "N = real n * 2 ^ t"
  define m where "m = y * 2 ^ t"
  have Npos: "0 < N" using rn by (simp add: N_def)
  have mN: "m = x * N" by (simp add: m_def N_def y_def)
  have rd: "roundDouble y = of_int (roundHalfEven m) / 2 ^ t"
    using pos by (simp add: roundDouble_def q m_def)
  have "quantum y * 2 ^ 52 < real n"
    using quantum_small [OF pos] ylt n(1) by auto
  then have "2 ^ 52 / 2 ^ t < real n" by (simp add: q)
  then have big: "2 ^ 52 < N" by (simp add: N_def field_simps)
  have "m \<le> (1 - 1 / 2 ^ 53) * N"
    unfolding mN using x(2) Npos by (intro mult_right_mono) simp_all
  also have "\<dots> = N - N / 2 ^ 53" by (simp add: algebra_simps)
  finally have m1: "m \<le> N - N / 2 ^ 53" .
  have "(2::real) ^ 52 / 2 ^ 53 = 1 / 2" by simp
  moreover have "2 ^ 52 / 2 ^ 53 < N / 2 ^ 53" using big by (simp add: divide_strict_right_mono)
  ultimately have "1 / 2 < N / 2 ^ 53" by simp
  with m1 have "m + 1 / 2 < N" by linarith
  with roundHalfEven_half [of m] have "of_int (roundHalfEven m) < N" by linarith
  then have "of_int (roundHalfEven m) / 2 ^ t < N / 2 ^ t"
    by (simp add: divide_strict_right_mono)
  also have "N / 2 ^ t = real n" by (simp add: N_def)
  finally show ?thesis by (simp add: rd y_def [symmetric])
qed

lemma quantum_pos: "0 < quantum a"
  by (simp add: quantum_powi)

lemma quantum_tiny:
  assumes "0 < a"
  shows "quantum a * 2 ^ 52 \<le> a \<or> quantum a * 2 ^ 53 < 1"
proof (cases "- 1022 \<le> exponentOf a")
  case True
  then have "quantum a = 2 powi (exponentOf a - 52)" by (simp add: quantum_powi max_def)
  then have "quantum a * 2 ^ 52 = 2 powi (exponentOf a - 52) * 2 powi 52" by simp
  also have "\<dots> = 2 powi exponentOf a"
    by (simp add: power_int_add [symmetric] del: power_int_numeral)
  finally show ?thesis using exponentOf_lower [OF assms] by simp
next
  case False
  then have "quantum a = 2 powi (- 1074)" by (simp add: quantum_powi max_def)
  then have "quantum a * 2 ^ 53 = 2 powi (- 1074) * 2 powi 53" by simp
  also have "\<dots> = 2 powi (- 1074 + 53)"
    by (rule power_int_add [symmetric]) simp
  also have "\<dots> < 2 powi 0"
    by (rule power_int_strict_increasing) simp_all
  finally show ?thesis by simp
qed

lemma roundDouble_error:
  assumes "0 < y"
  shows "roundDouble y \<le> y + quantum y / 2"
proof -
  define q where "q = quantum y"
  have q: "0 < q" by (simp add: q_def quantum_pos)
  have rd: "roundDouble y = of_int (roundHalfEven (y / q)) * q"
    using assms by (simp add: roundDouble_def q_def)
  have "of_int (roundHalfEven (y / q)) * q \<le> (y / q + 1 / 2) * q"
    using roundHalfEven_half [of "y / q"] q by (intro mult_right_mono) simp_all
  also have "\<dots> = y + q / 2" using q by (simp add: field_simps)
  finally show ?thesis by (simp add: rd q_def)
qed

lemma floor_roundDouble_relative:
  assumes "0 \<le> y" "y < 2 ^ 53"
  shows "of_int \<lfloor>roundDouble y\<rfloor> \<le> y * (1 + 1 / 2 ^ 53)"
proof (cases "roundDouble y < 1")
  case True
  have "(0::real) \<le> of_int \<lfloor>y\<rfloor>" using assms(1) by simp
  with roundDouble_floor [OF assms] have "0 \<le> roundDouble y" by linarith
  with True have "\<lfloor>roundDouble y\<rfloor> = 0" by linarith
  then show ?thesis using assms(1) by simp
next
  case False
  then have one: "1 \<le> roundDouble y" by simp
  then have "y \<noteq> 0" by (auto simp: roundDouble_def)
  with assms(1) have pos: "0 < y" by simp
  define q where "q = quantum y"
  have q: "0 < q" by (simp add: q_def quantum_pos)
  have err: "roundDouble y \<le> y + q / 2" using roundDouble_error [OF pos] by (simp add: q_def)
  have "q * 2 ^ 52 \<le> y"
  proof (rule ccontr)
    assume "\<not> q * 2 ^ 52 \<le> y"
    then have lt: "y < q * 2 ^ 52" by simp
    with quantum_tiny [OF pos] have tiny: "q * 2 ^ 53 < 1" by (simp add: q_def)
    have "q / 2 \<le> q * 2 ^ 52" using q by simp
    with lt err have "roundDouble y < q * 2 ^ 52 + q * 2 ^ 52" by linarith
    also have "\<dots> = q * 2 ^ 53" by simp
    finally show False using tiny one by linarith
  qed
  then have "q / 2 \<le> y / 2 ^ 53" by (simp add: field_simps)
  with err have "roundDouble y \<le> y + y / 2 ^ 53" by linarith
  also have "\<dots> = y * (1 + 1 / 2 ^ 53)" by (simp add: algebra_simps)
  finally have "roundDouble y \<le> y * (1 + 1 / 2 ^ 53)" .
  moreover have "of_int \<lfloor>roundDouble y\<rfloor> \<le> roundDouble y" by (rule of_int_floor_le)
  ultimately show ?thesis by linarith
qed

lemma choice_index:
  fixes x :: real and n :: nat
  assumes d: "isDouble x" and x: "0 \<le> x" "x < 1" and n: "0 < n" "n < 2 ^ 53"
  defines "c \<equiv> \<lfloor>roundDouble (x * real n)\<rfloor>"
  shows "0 \<le> c" and "c < int n"
    and "c = \<lfloor>x * real n\<rfloor> \<or> c = \<lfloor>x * real n\<rfloor> + 1"
    and "real (nat c) / real n \<le> x * (1 + 1 / 2 ^ 53)"
    and "x < real (nat c + 1) / real n"
proof -
  define y where "y = x * real n"
  have rn: "0 < real n" using n by simp
  have y0: "0 \<le> y" using x(1) by (simp add: y_def)
  have ylt: "y < real n" using x(2) rn by (simp add: y_def)
  from n(2) have "real n < real (2 ^ 53)" by (simp only: of_nat_less_iff)
  then have n53: "real n < 2 ^ 53" by simp
  with ylt have y53: "y < 2 ^ 53" by linarith
  note fl = roundDouble_floor [OF y0 y53]
  have f0: "0 \<le> \<lfloor>y\<rfloor>" using y0 by simp
  from fl have "of_int \<lfloor>y\<rfloor> \<le> roundDouble y" by simp
  then have lo: "\<lfloor>y\<rfloor> \<le> c" by (simp add: c_def y_def le_floor_iff)
  from fl have "roundDouble y \<le> of_int (\<lfloor>y\<rfloor> + 1)" by simp
  then have "\<lfloor>roundDouble y\<rfloor> \<le> \<lfloor>y\<rfloor> + 1" by (metis floor_mono floor_of_int)
  then have hi: "c \<le> \<lfloor>y\<rfloor> + 1" by (simp add: c_def y_def)
  from f0 lo show c0: "0 \<le> c" by linarith
  from lo hi show "c = \<lfloor>x * real n\<rfloor> \<or> c = \<lfloor>x * real n\<rfloor> + 1"
    unfolding y_def by linarith
  have x1: "x \<le> 1 - 1 / 2 ^ 53" using isDouble_below_one [OF d x] .
  from n(1) have "1 \<le> n" by simp
  from roundDouble_below [OF x(1) x1 this n(2)]
  have "roundDouble y < of_int (int n)" by (simp add: y_def)
  then show "c < int n" by (simp only: c_def y_def [symmetric] floor_less_iff)
  have ceq: "real (nat c) = of_int c" using c0 by simp
  have "of_int c \<le> y * (1 + 1 / 2 ^ 53)"
    using floor_roundDouble_relative [OF y0 y53] by (simp add: c_def y_def)
  then have "real (nat c) \<le> (x * (1 + 1 / 2 ^ 53)) * real n"
    by (simp add: ceq y_def mult.assoc mult.left_commute mult.commute)
  then show "real (nat c) / real n \<le> x * (1 + 1 / 2 ^ 53)"
    by (simp only: pos_divide_le_eq [OF rn])
  have "y < of_int \<lfloor>y\<rfloor> + 1" by (rule real_of_int_floor_add_one_gt)
  also have "\<dots> \<le> of_int c + 1" using lo by simp
  also have "\<dots> = real (nat c + 1)" using c0 by simp
  finally have "x * real n < real (nat c + 1)" by (simp only: y_def)
  then show "x < real (nat c + 1) / real n"
    by (simp only: pos_less_divide_eq [OF rn])
qed

text \<open>
  The rounded product is not the real one: the double nearest to \<open>0.7\<close> is
  \<open>3152519739159347 / 2^52\<close>, below \<open>0.7\<close>, and its product with \<open>10\<close> is rounded to \<open>7\<close>, so
  that \<^verbatim>\<open>Math.floor\<close> gives \<open>7\<close> where the floor of the real product is \<open>6\<close>.
\<close>

lemma roundDouble_rounds_up:
  "isDouble (3152519739159347 / 2 ^ 52)
   \<and> \<lfloor>roundDouble (3152519739159347 / 2 ^ 52 * 10)\<rfloor> = 7
   \<and> \<lfloor>3152519739159347 / 2 ^ 52 * (10::real)\<rfloor> = 6"
  by (simp add: isDouble_def roundDouble_def quantum_def exponentOf_def roundHalfEven_def
      bitlen_numeral_simps Let_def)

section \<open>Action combinators\<close>

lemma chainLoop_prefix:
  "evalArgs pre s = (rs, s1) \<Longrightarrow> \<forall>r \<in> set rs. r = Some (BoolV True) \<Longrightarrow>
   chainLoop All saved res (pre @ rest) s =
     chainLoop All saved (if pre = [] then res else Some (BoolV True)) rest s1"
proof (induction pre arbitrary: s rs res)
  case Nil
  then show ?case by simp
next
  case (Cons a pre)
  obtain r0 t0 where a: "a s = (r0, t0)" by (cases "a s")
  obtain rs' t1 where e: "evalArgs pre t0 = (rs', t1)" by (cases "evalArgs pre t0")
  from Cons.prems a e have rs: "rs = r0 # rs'" and s1: "s1 = t1" by auto
  with Cons.prems have r0: "r0 = Some (BoolV True)" and all: "\<forall>r \<in> set rs'. r = Some (BoolV True)"
    by auto
  from Cons.IH [OF e [unfolded s1 [symmetric]] all]
  show ?case using a r0 by (cases pre) auto
qed

lemma chainLoop_true_iff:
  "fst (chainLoop All saved res args s) = Some (BoolV True) \<longleftrightarrow>
     (if args = [] then res = Some (BoolV True)
      else \<forall>r \<in> set (fst (evalArgs args s)). r = Some (BoolV True))"
proof (induction args arbitrary: s res)
  case Nil
  then show ?case by simp
next
  case (Cons a args)
  obtain r0 t0 where a: "a s = (r0, t0)" by (cases "a s")
  obtain rs' t1 where e: "evalArgs args t0 = (rs', t1)" by (cases "evalArgs args t0")
  show ?case
  proof (cases "r0 = Some (BoolV True)")
    case True
    with Cons.IH [of r0 t0] a e show ?thesis by auto
  next
    case False
    then have "(case r0 of None \<Rightarrow> True | Some v \<Rightarrow> \<not> toBool v)"
      by (auto simp: toBool_iff split: option.splits)
    with a e False show ?thesis by auto
  qed
qed

text \<open>
  C2 (as amended). \<^verbatim>\<open>actionAll\<close> takes a snapshot of the next-state registers before the
  first action and evaluates the actions left to right. When the actions \<open>pre\<close> all return
  \<^verbatim>\<open>true\<close> and the next one, \<open>a\<close>, returns \<^verbatim>\<open>false\<close> or yields no value, the snapshot is
  loaded again, so that every next-state register has the value it had before the
  \<^verbatim>\<open>actionAll\<close>, the actions \<open>post\<close> are not evaluated, and the result is the result \<open>r\<close> of
  \<open>a\<close>: \<^verbatim>\<open>false\<close> when \<open>a\<close> returned \<^verbatim>\<open>false\<close>, no value when \<open>a\<close> yielded none. When all the
  actions return \<^verbatim>\<open>true\<close> the result is \<^verbatim>\<open>true\<close>; and the result is \<^verbatim>\<open>true\<close> only then.
\<close>

theorem actionAll_restores_on_failure:
  "(evalArgs pre s = (rs, s1) \<and> (\<forall>r \<in> set rs. r = Some (BoolV True))
      \<and> a s1 = (r, s2) \<and> (r = None \<or> r = Some (BoolV False))
      \<and> length (nextVars s2) = length (nextVars s)
      \<longrightarrow> translateAllOrThen ''actionAll'' (pre @ a # post) s
            = (r, recoverNextVars (snapshotNextVars s) s2)
          \<and> snapshotNextVars (recoverNextVars (snapshotNextVars s) s2) = snapshotNextVars s)
   \<and> (evalArgs args s = (rs, s1) \<and> (\<forall>r \<in> set rs. r = Some (BoolV True))
      \<longrightarrow> translateAllOrThen ''actionAll'' args s = (Some (BoolV True), s1))
   \<and> (fst (translateAllOrThen ''actionAll'' args s) = Some (BoolV True)
        \<longleftrightarrow> (\<forall>r \<in> set (fst (evalArgs args s)). r = Some (BoolV True)))"
proof -
  have c1: "translateAllOrThen ''actionAll'' (pre @ a # post) s
            = (r, recoverNextVars (snapshotNextVars s) s2)"
    if "evalArgs pre s = (rs, s1)" "\<forall>r \<in> set rs. r = Some (BoolV True)"
      "a s1 = (r, s2)" "r = None \<or> r = Some (BoolV False)"
    using chainLoop_prefix [OF that(1,2), of "snapshotNextVars s" "Some (BoolV True)" "a # post"] that(3,4)
    by (auto simp: translateAllOrThen_def chainAllOrThen_def)
  have c2: "snapshotNextVars (recoverNextVars (snapshotNextVars s) s2) = snapshotNextVars s"
    if "length (nextVars s2) = length (nextVars s)"
    using that by (simp add: snapshotNextVars_def recoverNextVars_def snapshotRegs_recoverRegs)
  have c3: "translateAllOrThen ''actionAll'' args s = (Some (BoolV True), s1)"
    if "evalArgs args s = (rs, s1)" "\<forall>r \<in> set rs. r = Some (BoolV True)"
    using chainLoop_prefix [OF that(1,2), of "snapshotNextVars s" "Some (BoolV True)" "[]"]
    by (auto simp: translateAllOrThen_def chainAllOrThen_def)
  have c4: "fst (translateAllOrThen ''actionAll'' args s) = Some (BoolV True)
        \<longleftrightarrow> (\<forall>r \<in> set (fst (evalArgs args s)). r = Some (BoolV True))"
    using chainLoop_true_iff [of "snapshotNextVars s" "Some (BoolV True)" args s]
    by (cases args) (auto simp: translateAllOrThen_def chainAllOrThen_def)
  show ?thesis using c1 c2 c3 c4 by blast
qed

theorem actionAll_restores_on_failure_witness:
  "translateAllOrThen ''actionAll''
     [assign 1 ''n'' (mkConstComputable (IntV 1)), mkConstComputable (BoolV False),
      assign 2 ''n'' (mkConstComputable (IntV 2))]
     (counters (Some (IntV 0)) None (\<lambda>_. 0))
   = (Some (BoolV False), counters (Some (IntV 0)) None (\<lambda>_. 0))
   \<and> translateAllOrThen ''actionAll''
     [assign 1 ''n'' (mkConstComputable (IntV 1)), mkConstComputable (BoolV True)]
     (counters (Some (IntV 0)) None (\<lambda>_. 0))
   = (Some (BoolV True), counters (Some (IntV 0)) (Some (IntV 1)) (\<lambda>_. 0))"
proof -
  let ?s = "counters (Some (IntV 0)) None (\<lambda>_. 0)"
  let ?s1 = "counters (Some (IntV 0)) (Some (IntV 1)) (\<lambda>_. 0)"
  have e1: "evalArgs [assign 1 ''n'' (mkConstComputable (IntV 1))] ?s = ([Some (BoolV True)], ?s1)"
    by (simp add: assign_const)
  have e2: "evalArgs [assign 1 ''n'' (mkConstComputable (IntV 1)), mkConstComputable (BoolV True)] ?s
      = ([Some (BoolV True), Some (BoolV True)], ?s1)"
    by (simp add: assign_const) (simp add: mkConstComputable_def)
  have a: "mkConstComputable (BoolV False) ?s1 = (Some (BoolV False), ?s1)"
    by (simp add: mkConstComputable_def)
  have len: "length (nextVars ?s1) = length (nextVars ?s)"
    by (simp add: counters_def)
  from actionAll_restores_on_failure [of "[assign 1 ''n'' (mkConstComputable (IntV 1))]" ?s
      "[Some (BoolV True)]" ?s1 "mkConstComputable (BoolV False)" "Some (BoolV False)" ?s1
      "[assign 2 ''n'' (mkConstComputable (IntV 2))]"] e1 a len
  have r1: "translateAllOrThen ''actionAll''
     [assign 1 ''n'' (mkConstComputable (IntV 1)), mkConstComputable (BoolV False),
      assign 2 ''n'' (mkConstComputable (IntV 2))] ?s = (Some (BoolV False), ?s)"
    by (simp add: snapshotNextVars_counters recoverNextVars_counters)
  from actionAll_restores_on_failure [of _ ?s "[Some (BoolV True), Some (BoolV True)]" ?s1
      _ _ _ _ "[assign 1 ''n'' (mkConstComputable (IntV 1)), mkConstComputable (BoolV True)]"] e2
  have r2: "translateAllOrThen ''actionAll''
     [assign 1 ''n'' (mkConstComputable (IntV 1)), mkConstComputable (BoolV True)] ?s
     = (Some (BoolV True), ?s1)"
    by simp
  from r1 r2 show ?thesis by simp
qed

theorem actionAll_no_value_counterexample:
  "translateAllOrThen ''actionAll''
     [assign 1 ''n'' (mkConstComputable (IntV 1)),
      assign 2 ''n'' (applyFun 3 [mkConstComputable (IntV 2), mkConstComputable (IntV 0)] (idiv 3))]
     (counters (Some (IntV 0)) None (\<lambda>_. 0))
   = (None, addRuntimeError 3 ''Division by zero'' (counters (Some (IntV 0)) None (\<lambda>_. 0)))
   \<and> fst (translateAllOrThen ''actionAll''
     [assign 1 ''n'' (mkConstComputable (IntV 1)),
      assign 2 ''n'' (applyFun 3 [mkConstComputable (IntV 2), mkConstComputable (IntV 0)] (idiv 3))]
     (counters (Some (IntV 0)) None (\<lambda>_. 0))) \<noteq> Some (BoolV False)"
  by (simp add: translateAllOrThen_def chainAllOrThen_def assign_const)
    (simp add: assign_def applyFun_def mkConstComputable_def counters_def setRegister_def
      addRuntimeError_def recoverNextVars_def recoverRegs_def snapshotNextVars_def snapshotRegs_def
      valueAt_def)


lemma orActionLoop_spec:
  "orActionLoop pre args succ s =
     (succ @ specAnyCollected (specAnyRuns pre args s), specLastState s (specAnyRuns pre args s))"
proof (induction args arbitrary: succ s)
  case Nil
  then show ?case by (simp add: specAnyCollected_def specLastState_def)
next
  case (Cons a args)
  show ?case
    by (cases "a (recoverNextVars pre s)")
      (auto simp: Cons.IH Let_def toBool_orFalse_iff specAnyCollected_def specLastState_def)
qed

lemma length_specAnyRuns: "length (specAnyRuns pre args s) = length args"
  by (induction args arbitrary: s) (auto simp: Let_def)


lemma specAnyRuns_entry:
  "\<forall>a \<in> set args. keepsRegisters a \<Longrightarrow> length pre = length (nextVars s) \<Longrightarrow>
   (e, r, t) \<in> set (specAnyRuns pre args s) \<Longrightarrow>
   snapshotNextVars e = pre \<and> length (nextVars t) = length pre"
proof (induction args arbitrary: s)
  case Nil
  then show ?case by simp
next
  case (Cons a args)
  let ?e = "recoverNextVars pre s"
  have len_e: "length (nextVars ?e) = length pre"
    using Cons.prems(2) by (simp add: recoverNextVars_def)
  have snap_e: "snapshotNextVars ?e = pre"
    using Cons.prems(2) by (simp add: recoverNextVars_def snapshotNextVars_def snapshotRegs_recoverRegs)
  have len_t: "length (nextVars (snd (a ?e))) = length pre"
    using Cons.prems(1) len_e by (simp add: keepsRegisters_def)
  from Cons.prems(3) consider "(e, r, t) = (?e, fst (a ?e), snd (a ?e))"
    | "(e, r, t) \<in> set (specAnyRuns pre args (snd (a ?e)))"
    by (auto simp: Let_def)
  then show ?case
  proof cases
    case 1
    then have "e = ?e" and "t = snd (a ?e)" by (simp_all add: prod_eq_iff)
    then show ?thesis using snap_e len_t by simp
  next
    case 2
    from Cons.IH [OF _ _ 2] Cons.prems(1) len_t show ?thesis by simp
  qed
qed


lemma specLastState_length:
  assumes "\<forall>a \<in> set args. keepsRegisters a"
  shows "length (nextVars (specLastState s (specAnyRuns (snapshotNextVars s) args s)))
           = length (nextVars s)"
proof (cases "specAnyRuns (snapshotNextVars s) args s = []")
  case True
  then show ?thesis by (simp add: specLastState_def)
next
  case False
  let ?runs = "specAnyRuns (snapshotNextVars s) args s"
  obtain e r t where l: "last ?runs = (e, r, t)" by (cases "last ?runs")
  with False have "(e, r, t) \<in> set ?runs" by (metis last_in_set)
  from specAnyRuns_entry [OF assms _ this]
  have "length (nextVars t) = length (nextVars s)" by (simp add: snapshotNextVars_def)
  with False l show ?thesis by (simp add: specLastState_def)
qed

lemma specAnyCollected_length:
  assumes "\<forall>a \<in> set args. keepsRegisters a"
    and "c \<in> set (specAnyCollected (specAnyRuns (snapshotNextVars s) args s))"
  shows "length c = length (nextVars s)"
proof -
  from assms(2) obtain e r t where m: "(e, r, t) \<in> set (specAnyRuns (snapshotNextVars s) args s)"
    and c: "c = snapshotNextVars t"
    by (auto simp: specAnyCollected_def)
  from specAnyRuns_entry [OF assms(1) _ m] c show ?thesis
    by (simp add: snapshotNextVars_def)
qed

text \<open>
  C3. \<^verbatim>\<open>actionAny\<close> over \<open>args\<close>, from the state \<open>s\<close> with the pre-snapshot \<open>pre\<close> of the
  next-state registers: every action is evaluated (\<open>runs\<close> has one entry for each), each in
  a state whose next-state registers are those of \<open>pre\<close>; \<open>collected\<close> are the next-state
  snapshots left by the actions that returned \<^verbatim>\<open>true\<close>. If there is none, \<open>pre\<close> is loaded and
  the result is \<^verbatim>\<open>false\<close>. Otherwise one number \<open>x\<close> is drawn from \<^verbatim>\<open>Math.random()\<close>, a double
  of \<open>[0, 1)\<close>; with \<open>n\<close> collected snapshots (an array has fewer than \<open>2^32\<close> elements) the
  snapshot of index \<open>k\<close>, the floor of the product \<open>x * n\<close> rounded to a double, is loaded into
  the next-state registers and the result is \<^verbatim>\<open>true\<close>. The index \<open>k\<close> is \<open>\<lfloor>x * n\<rfloor>\<close> or the next
  integer, with \<open>k / n \<le> x * (1 + 2^-53)\<close> and \<open>x < (k + 1) / n\<close>: each snapshot is chosen on an
  interval of the length \<open>1 / n\<close>, up to the rounding of the product.
\<close>

theorem actionAny_collects_and_picks:
  fixes args :: "computable list" and s :: state
  assumes keeps: "\<forall>a \<in> set args. keepsRegisters a"
  defines "pre \<equiv> snapshotNextVars s"
  defines "runs \<equiv> specAnyRuns pre args s"
  defines "collected \<equiv> specAnyCollected runs"
  defines "sN \<equiv> specLastState s runs"
  defines "x \<equiv> draws sN (ndraws sN)"
  defines "k \<equiv> nat \<lfloor>roundDouble (x * real (length collected))\<rfloor>"
  shows "length runs = length args
    \<and> (\<forall>(e, r, t) \<in> set runs. snapshotNextVars e = pre)
    \<and> (collected = [] \<longrightarrow>
          translateOrAction args s = (Some (BoolV False), recoverNextVars pre sN)
        \<and> snapshotNextVars (snd (translateOrAction args s)) = pre)
    \<and> (collected \<noteq> [] \<and> isDouble x \<and> 0 \<le> x \<and> x < 1 \<and> length args < 2 ^ 32 \<longrightarrow>
          k < length collected
        \<and> (int k = \<lfloor>x * real (length collected)\<rfloor> \<or> int k = \<lfloor>x * real (length collected)\<rfloor> + 1)
        \<and> real k / real (length collected) \<le> x * (1 + 1 / 2 ^ 53)
        \<and> x < real (k + 1) / real (length collected)
        \<and> translateOrAction args s
            = (Some (BoolV True), recoverNextVars (collected ! k) (sN\<lparr>ndraws := ndraws sN + 1\<rparr>))
        \<and> snapshotNextVars (snd (translateOrAction args s)) = collected ! k)"
proof -
  have loop: "orActionLoop pre args [] s = (collected, sN)"
    by (simp add: orActionLoop_spec collected_def sN_def runs_def)
  have c1: "length runs = length args"
    by (simp add: runs_def length_specAnyRuns)
  have c2: "\<forall>(e, r, t) \<in> set runs. snapshotNextVars e = pre"
    using specAnyRuns_entry [OF keeps, of pre s]
    by (auto simp: runs_def pre_def snapshotNextVars_def)
  have lenN: "length (nextVars sN) = length pre"
    using specLastState_length [OF keeps, of s]
    by (simp add: sN_def runs_def pre_def snapshotNextVars_def)
  have lenc: "length collected \<le> length args"
    using length_filter_le [of "\<lambda>(e, r, t). r = Some (BoolV True)" runs] c1
    by (simp add: collected_def specAnyCollected_def)
  have c3: "translateOrAction args s = (Some (BoolV False), recoverNextVars pre sN)
        \<and> snapshotNextVars (snd (translateOrAction args s)) = pre" if "collected = []"
  proof -
    have res: "translateOrAction args s = (Some (BoolV False), recoverNextVars pre sN)"
      using that loop by (simp add: translateOrAction_def pre_def [symmetric])
    have "snapshotNextVars (recoverNextVars pre sN) = pre"
      using lenN by (simp add: snapshotNextVars_def recoverNextVars_def snapshotRegs_recoverRegs)
    with res show ?thesis by simp
  qed
  have c4: "k < length collected
        \<and> (int k = \<lfloor>x * real (length collected)\<rfloor> \<or> int k = \<lfloor>x * real (length collected)\<rfloor> + 1)
        \<and> real k / real (length collected) \<le> x * (1 + 1 / 2 ^ 53)
        \<and> x < real (k + 1) / real (length collected)
        \<and> translateOrAction args s
            = (Some (BoolV True), recoverNextVars (collected ! k) (sN\<lparr>ndraws := ndraws sN + 1\<rparr>))
        \<and> snapshotNextVars (snd (translateOrAction args s)) = collected ! k"
    if "collected \<noteq> []" "isDouble x" "0 \<le> x" "x < 1" "length args < 2 ^ 32"
  proof -
    from that(1) have n: "0 < length collected" by simp
    have "(2::nat) ^ 32 \<le> 2 ^ 53" by simp
    with lenc that(5) have n53: "length collected < 2 ^ 53" by linarith
    note fl = choice_index [OF that(2,3,4) n n53]
    have k: "k < length collected" using fl(1,2) unfolding k_def by linarith
    have ik: "int k = \<lfloor>roundDouble (x * real (length collected))\<rfloor>"
      using fl(1) by (simp add: k_def)
    then have near: "int k = \<lfloor>x * real (length collected)\<rfloor>
        \<or> int k = \<lfloor>x * real (length collected)\<rfloor> + 1"
      using fl(3) by (simp only:)
    from k have "collected ! k \<in> set collected" by simp
    then have lenk: "length (collected ! k) = length (nextVars sN)"
      using specAnyCollected_length [OF keeps, of "collected ! k" s] lenN
      by (simp add: collected_def runs_def pre_def snapshotNextVars_def)
    have res: "translateOrAction args s
            = (Some (BoolV True), recoverNextVars (collected ! k) (sN\<lparr>ndraws := ndraws sN + 1\<rparr>))"
      using loop that(1) fl(1,2)
      by (simp add: translateOrAction_def pre_def [symmetric] mathRandom_def x_def [symmetric]
          k_def [symmetric] Let_def)
    have "snapshotNextVars (recoverNextVars (collected ! k) (sN\<lparr>ndraws := ndraws sN + 1\<rparr>)) = collected ! k"
      using lenk by (simp add: snapshotNextVars_def recoverNextVars_def snapshotRegs_recoverRegs)
    with res have snap: "snapshotNextVars (snd (translateOrAction args s)) = collected ! k"
      by simp
    from fl(4,5) have iv: "real k / real (length collected) \<le> x * (1 + 1 / 2 ^ 53)"
        "x < real (k + 1) / real (length collected)"
      by (simp_all only: k_def)
    from k near iv res snap show ?thesis by (simp only: simp_thms)
  qed
  show ?thesis using c1 c2 c3 c4 by blast
qed

theorem actionAny_collects_and_picks_witness:
  "translateOrAction [assign 1 ''n'' (mkConstComputable (IntV 1)),
       mkConstComputable (BoolV False),
       assign 2 ''n'' (mkConstComputable (IntV 2))]
     (counters (Some (IntV 0)) None (\<lambda>_. 1 / 2))
   = (Some (BoolV True), (counters (Some (IntV 0)) (Some (IntV 2)) (\<lambda>_. 1 / 2))\<lparr>ndraws := 1\<rparr>)"
proof -
  let ?args = "[assign 1 ''n'' (mkConstComputable (IntV 1)), mkConstComputable (BoolV False),
       assign 2 ''n'' (mkConstComputable (IntV 2))]"
  let ?s = "counters (Some (IntV 0)) None (\<lambda>_. 1 / 2)"
  let ?s1 = "counters (Some (IntV 0)) (Some (IntV 1)) (\<lambda>_. 1 / 2)"
  let ?s2 = "counters (Some (IntV 0)) (Some (IntV 2)) (\<lambda>_. 1 / 2)"
  have keeps: "\<forall>a \<in> set ?args. keepsRegisters a"
    by (simp add: keepsRegisters_assign_const keepsRegisters_const)
  have runs: "specAnyRuns [None] ?args ?s
      = [(?s, Some (BoolV True), ?s1), (?s, Some (BoolV False), ?s), (?s, Some (BoolV True), ?s2)]"
    by (simp add: recoverNextVars_counters assign_const mkConstComputable_apply Let_def)
  have collected: "specAnyCollected (specAnyRuns [None] ?args ?s)
      = [[Some (IntV 1)], [Some (IntV 2)]]"
    unfolding runs by (simp add: specAnyCollected_def snapshotNextVars_counters)
  have last: "specLastState ?s (specAnyRuns [None] ?args ?s) = ?s2"
    unfolding runs by (simp add: specLastState_def)
  have x: "draws ?s2 (ndraws ?s2) = 1 / 2"
    by (simp add: counters_def)
  have d: "isDouble (1 / 2)"
    by (simp add: isDouble_def roundDouble_def quantum_def exponentOf_def roundHalfEven_def
        bitlen_numeral_simps Let_def)
  have k: "nat \<lfloor>roundDouble ((1 / 2) * real (length [[Some (IntV 1)], [Some (IntV 2)]]))\<rfloor> = 1"
    by (simp add: roundDouble_def quantum_def exponentOf_def roundHalfEven_def
        bitlen_numeral_simps Let_def)
  from actionAny_collects_and_picks [OF keeps, of ?s, unfolded snapshotNextVars_counters]
  have "translateOrAction ?args ?s
      = (Some (BoolV True), recoverNextVars [Some (IntV 2)] (?s2\<lparr>ndraws := ndraws ?s2 + 1\<rparr>))"
    unfolding collected last x k using d by simp
  then show ?thesis
    by (simp add: counters_def recoverNextVars_def recoverRegs_def valueAt_def)
qed


section \<open>The verdict of the simulator\<close>












section \<open>Replay of the simulator\<close>

lemma sameFuture_recoverNextVars:
  "sameFuture s t \<Longrightarrow> sameFuture (recoverNextVars vs s) (recoverNextVars vs t)"
  by (simp add: sameFuture_def recoverNextVars_def)

lemma sameFuture_recoverVars:
  "sameFuture s t \<Longrightarrow> sameFuture (recoverVars vs s) (recoverVars vs t)"
  by (simp add: sameFuture_def recoverVars_def)

lemma sameFuture_snapshots:
  "sameFuture s t \<Longrightarrow> snapshotVars s = snapshotVars t \<and> snapshotNextVars s = snapshotNextVars t
     \<and> varsToRecord s = varsToRecord t"
  by (simp add: sameFuture_def snapshotVars_def snapshotNextVars_def varsToRecord_def)

lemma sameFuture_shiftVars: "sameFuture s t \<Longrightarrow> sameFuture (shiftVars s) (shiftVars t)"
  by (simp add: sameFuture_def shiftVars_def recoverVars_def snapshotNextVars_def Let_def)

lemma sameFuture_lastTrace:
  "sameFuture s t \<Longrightarrow> sameFuture (s\<lparr>lastTrace := x\<rparr>) (t\<lparr>lastTrace := x\<rparr>)"
  by (simp add: sameFuture_def)

lemma sameFuture_addRuntimeError:
  "sameFuture s t \<Longrightarrow> sameFuture (addRuntimeError i m s) (addRuntimeError j m' t)"
  by (simp add: sameFuture_def addRuntimeError_def)

lemma sameFuture_mathRandom:
  "sameFuture s t \<Longrightarrow> fst (mathRandom s) = fst (mathRandom t)
     \<and> sameFuture (snd (mathRandom s)) (snd (mathRandom t))"
proof -
  assume a: "sameFuture s t"
  then have d: "\<And>i. draws s (ndraws s + i) = draws t (ndraws t + i)"
    by (simp add: sameFuture_def)
  from d [of 0] have "fst (mathRandom s) = fst (mathRandom t)" by (simp add: mathRandom_def)
  moreover have "sameFuture (snd (mathRandom s)) (snd (mathRandom t))"
    using a d [of "Suc _"] by (simp add: sameFuture_def mathRandom_def)
  ultimately show ?thesis by simp
qed

lemma replayableD:
  "replayable c \<Longrightarrow> sameFuture s t \<Longrightarrow> fst (c s) = fst (c t) \<and> sameFuture (snd (c s)) (snd (c t))"
  by (simp add: replayable_def)

lemma replayable_fail: "replayable fail"
  by (simp add: replayable_def fail_def)

lemma replayable_callableOrFail:
  "\<forall>x c. ctx x = Some c \<longrightarrow> replayable c \<Longrightarrow> replayable (callableOrFail ctx x)"
  by (auto simp: callableOrFail_def replayable_fail split: option.splits)

lemma evalArgs_replay:
  "\<forall>c \<in> set args. replayable c \<Longrightarrow> sameFuture s t \<Longrightarrow>
   fst (evalArgs args s) = fst (evalArgs args t)
     \<and> sameFuture (snd (evalArgs args s)) (snd (evalArgs args t))"
proof (induction args arbitrary: s t)
  case Nil
  then show ?case by simp
next
  case (Cons a args)
  from Cons.prems have ra: "replayable a" by simp
  from replayableD [OF ra Cons.prems(2)]
  have a: "fst (a s) = fst (a t)" and f: "sameFuture (snd (a s)) (snd (a t))" by simp_all
  from Cons.IH [OF _ f] Cons.prems(1)
  have "fst (evalArgs args (snd (a s))) = fst (evalArgs args (snd (a t)))
     \<and> sameFuture (snd (evalArgs args (snd (a s)))) (snd (evalArgs args (snd (a t))))" by simp
  with a show ?case by (simp add: split_beta)
qed

lemma stepsLoop_replay:
  "replayable next \<Longrightarrow> replayable invariant \<Longrightarrow> sameFuture s t \<Longrightarrow>
   fst (stepsLoop next invariant n e tr s) = fst (stepsLoop next invariant n e tr t)
   \<and> fst (snd (stepsLoop next invariant n e tr s)) = fst (snd (stepsLoop next invariant n e tr t))
   \<and> sameFuture (snd (snd (stepsLoop next invariant n e tr s)))
        (snd (snd (stepsLoop next invariant n e tr t)))"
proof (induction n arbitrary: e tr s t)
  case 0
  then show ?case by simp
next
  case (Suc n)
  from replayableD [OF Suc.prems(1,3)]
  have a: "fst (next s) = fst (next t)" and f: "sameFuture (snd (next s)) (snd (next t))" by simp_all
  from sameFuture_shiftVars [OF f]
  have f2: "sameFuture (shiftVars (snd (next s))) (shiftVars (snd (next t)))" .
  from replayableD [OF Suc.prems(2) f2]
  have b: "fst (invariant (shiftVars (snd (next s)))) = fst (invariant (shiftVars (snd (next t))))"
    and f3: "sameFuture (snd (invariant (shiftVars (snd (next s)))))
       (snd (invariant (shiftVars (snd (next t)))))" by simp_all
  from sameFuture_snapshots [OF f2]
  have rec: "varsToRecord (shiftVars (snd (next s))) = varsToRecord (shiftVars (snd (next t)))" by simp
  note IH = Suc.IH [OF Suc.prems(1,2) f3]
  show ?case
    using a b f rec IH Suc.prems(3) by (simp add: split_beta Let_def)
qed

lemma singleRun_replay:
  assumes ctx: "\<forall>x c. ctx x = Some c \<longrightarrow> replayable c" and sf: "sameFuture s t"
  shows "fst (singleRun ctx a b c d s) = fst (singleRun ctx a b c d t)
   \<and> fst (snd (singleRun ctx a b c d s)) = fst (snd (singleRun ctx a b c d t))
   \<and> sameFuture (snd (snd (singleRun ctx a b c d s))) (snd (snd (singleRun ctx a b c d t)))"
proof -
  let ?init = "callableOrFail ctx (toStr b)"
  let ?inv = "callableOrFail ctx (toStr d)"
  let ?next = "callableOrFail ctx (toStr c)"
  note r = replayable_callableOrFail [OF ctx]
  from replayableD [OF r sf]
  have a: "fst (?init s) = fst (?init t)" and f: "sameFuture (snd (?init s)) (snd (?init t))"
    by simp_all
  from sameFuture_shiftVars [OF f]
  have f2: "sameFuture (shiftVars (snd (?init s))) (shiftVars (snd (?init t)))" .
  from replayableD [OF r f2]
  have b: "fst (?inv (shiftVars (snd (?init s)))) = fst (?inv (shiftVars (snd (?init t))))"
    and f3: "sameFuture (snd (?inv (shiftVars (snd (?init s))))) (snd (?inv (shiftVars (snd (?init t)))))"
    by simp_all
  from sameFuture_snapshots [OF f2]
  have rec: "varsToRecord (shiftVars (snd (?init s))) = varsToRecord (shiftVars (snd (?init t)))" by simp
  note st = stepsLoop_replay [OF r r f3, of "toStr c" "toStr d" "nat (toInt a)" False
      "[varsToRecord (shiftVars (snd (?init t)))]"]
  show ?thesis
    using a b f f3 rec st by (simp add: singleRun_def split_beta Let_def)
qed

lemma runsLoop_replay:
  assumes run: "\<And>s t. sameFuture s t \<Longrightarrow> fst (run s) = fst (run t)
     \<and> fst (snd (run s)) = fst (snd (run t)) \<and> sameFuture (snd (snd (run s))) (snd (snd (run t)))"
  shows "sameFuture s t \<Longrightarrow>
   fst (runsLoop run v nv n e tr s) = fst (runsLoop run v nv n e tr t)
   \<and> fst (snd (runsLoop run v nv n e tr s)) = fst (snd (runsLoop run v nv n e tr t))
   \<and> sameFuture (snd (snd (runsLoop run v nv n e tr s))) (snd (snd (runsLoop run v nv n e tr t)))"
proof (induction n arbitrary: e tr s t)
  case 0
  then show ?case by simp
next
  case (Suc n)
  from run [OF Suc.prems]
  have a: "fst (run s) = fst (run t)" and b: "fst (snd (run s)) = fst (snd (run t))"
    and f: "sameFuture (snd (snd (run s))) (snd (snd (run t)))" by simp_all
  from sameFuture_recoverNextVars [OF sameFuture_recoverVars [OF f]]
  have f2: "sameFuture (recoverNextVars nv (recoverVars v (snd (snd (run s)))))
     (recoverNextVars nv (recoverVars v (snd (snd (run t)))))" .
  note IH = Suc.IH [OF f2, of "fst (run t)" "fst (snd (run t))"]
  show ?case using a b IH Suc.prems by (simp add: split_beta)
qed

text \<open>
  C6 (as amended). The code has no seed: \<^verbatim>\<open>oneOf\<close> and \<^verbatim>\<open>actionAny\<close> draw from
  \<^verbatim>\<open>Math.random()\<close>. What replays is the sequence of numbers drawn: two invocations of
  \<^verbatim>\<open>_test\<close> with the same arguments, from states with the same registers, in which
  \<^verbatim>\<open>Math.random()\<close> returns the same numbers, produce the same verdict and the same trace
  (and leave states of which the same holds again), whatever was logged or drawn before.
  The arguments and the callables of the context are replayable computables.
\<close>

theorem test_replay:
  "(\<forall>c \<in> set args. replayable c) \<and> (\<forall>x c. ctx x = Some c \<longrightarrow> replayable c) \<and> sameFuture s t
   \<longrightarrow> fst (test ctx args s) = fst (test ctx args t)
     \<and> lastTrace (snd (test ctx args s)) = lastTrace (snd (test ctx args t))
     \<and> sameFuture (snd (test ctx args s)) (snd (test ctx args t))"
proof (intro impI, elim conjE)
  assume args: "\<forall>c \<in> set args. replayable c"
    and ctx: "\<forall>x c. ctx x = Some c \<longrightarrow> replayable c" and sf: "sameFuture s t"
  from evalArgs_replay [OF args sf]
  have v: "fst (evalArgs args s) = fst (evalArgs args t)"
    and f0: "sameFuture (snd (evalArgs args s)) (snd (evalArgs args t))" by simp_all
  obtain vs s0 where es: "evalArgs args s = (vs, s0)" by (cases "evalArgs args s")
  obtain vt t0 where et: "evalArgs args t = (vt, t0)" by (cases "evalArgs args t")
  from v f0 es et have vt: "vt = vs" and f: "sameFuture s0 t0" by simp_all
  have goal: "fst (test ctx args s) = fst (test ctx args t)
     \<and> sameFuture (snd (test ctx args s)) (snd (test ctx args t))"
  proof (cases "\<exists>a b c d e. merge vs = Some [a, b, c, d, e]")
    case False
    then have "test ctx args s = (None, s0)" "test ctx args t = (None, t0)"
      using es et vt by (auto simp: test_def split: option.splits list.splits)
    with f show ?thesis by simp
  next
    case True
    then obtain a b c d e where m: "merge vs = Some [a, b, c, d, e]" by blast
    let ?run = "singleRun ctx b c d e"
    from sameFuture_snapshots [OF f]
    have sn: "snapshotVars s0 = snapshotVars t0" "snapshotNextVars s0 = snapshotNextVars t0" by simp_all
    note rl = runsLoop_replay [of ?run, OF singleRun_replay [OF ctx] f,
        of "snapshotVars t0" "snapshotNextVars t0" "nat (toInt a)" False "[]"]
    show ?thesis
      using es et vt m sn rl
      by (simp add: test_def split_beta Let_def sameFuture_lastTrace)
  qed
  then show "fst (test ctx args s) = fst (test ctx args t)
     \<and> lastTrace (snd (test ctx args s)) = lastTrace (snd (test ctx args t))
     \<and> sameFuture (snd (test ctx args s)) (snd (test ctx args t))"
    by (simp add: sameFuture_def)
qed


lemma replayable_const: "replayable (mkConstComputable v)"
  by (simp add: replayable_def mkConstComputable_def)

lemma replayable_readVar: "replayable (readVar i x)"
proof -
  have "fst (readVar i x s) = fst (readVar i x t)
      \<and> sameFuture (snd (readVar i x s)) (snd (readVar i x t))" if sf: "sameFuture s t" for s t
  proof -
    from sf have v: "vars s = vars t" by (simp add: sameFuture_def)
    show ?thesis
      using sf sameFuture_addRuntimeError [OF sf]
      by (simp add: readVar_def v fail_def split: option.splits)
  qed
  then show ?thesis by (simp add: replayable_def)
qed

lemma replayable_applyFun:
  assumes args: "\<forall>c \<in> set args. replayable c"
    and fn: "\<And>vs s t. sameFuture s t \<Longrightarrow>
       fst (fn vs s) = fst (fn vs t) \<and> sameFuture (snd (fn vs s)) (snd (fn vs t))"
  shows "replayable (applyFun i args fn)"
proof -
  have "fst (applyFun i args fn s) = fst (applyFun i args fn t)
      \<and> sameFuture (snd (applyFun i args fn s)) (snd (applyFun i args fn t))"
    if sf: "sameFuture s t" for s t
  proof -
    from evalArgs_replay [OF args sf]
    have v: "fst (evalArgs args s) = fst (evalArgs args t)"
      and f0: "sameFuture (snd (evalArgs args s)) (snd (evalArgs args t))" by simp_all
    obtain vs s0 where es: "evalArgs args s = (vs, s0)" by (cases "evalArgs args s")
    obtain vt t0 where et: "evalArgs args t = (vt, t0)" by (cases "evalArgs args t")
    from v f0 es et have vt: "vt = vs" and f: "sameFuture s0 t0" by simp_all
    show ?thesis
    proof (cases "merge vs")
      case None
      with es et vt f show ?thesis by (simp add: applyFun_def)
    next
      case (Some ws)
      obtain r1 s1 where a: "fn ws s0 = (r1, s1)" by (cases "fn ws s0")
      obtain r2 t1 where b: "fn ws t0 = (r2, t1)" by (cases "fn ws t0")
      from fn [OF f, of ws] a b have r: "r2 = r1" and f1: "sameFuture s1 t1" by simp_all
      show ?thesis
        using es et vt Some a b r f1 sameFuture_addRuntimeError [OF f1]
        by (cases r1) (simp_all add: applyFun_def)
    qed
  qed
  then show ?thesis by (simp add: replayable_def)
qed

lemma replayable_assign: "replayable c \<Longrightarrow> replayable (assign i x c)"
proof -
  assume c: "replayable c"
  have fn: "fst (assignFun x vs s) = fst (assignFun x vs t)
       \<and> sameFuture (snd (assignFun x vs s)) (snd (assignFun x vs t))"
    if "sameFuture s t" for vs s t
    using that by (cases "(x, vs, s)" rule: assignFun.cases) (simp_all add: sameFuture_def)
  have ap: "replayable (applyFun i [c] (assignFun x))"
    by (rule replayable_applyFun) (simp_all add: c fn)
  have "fst (assign i x c s) = fst (assign i x c t)
      \<and> sameFuture (snd (assign i x c s)) (snd (assign i x c t))" if sf: "sameFuture s t" for s t
  proof -
    from sf have "nextVars s = nextVars t" by (simp add: sameFuture_def)
    then show ?thesis
      using replayableD [OF ap sf] replayableD [OF replayable_fail sf]
      by (simp add: assign_def)
  qed
  then show ?thesis by (simp add: replayable_def)
qed

lemma orActionLoop_replay:
  "\<forall>c \<in> set args. replayable c \<Longrightarrow> sameFuture s t \<Longrightarrow>
   fst (orActionLoop pre args succ s) = fst (orActionLoop pre args succ t)
     \<and> sameFuture (snd (orActionLoop pre args succ s)) (snd (orActionLoop pre args succ t))"
proof (induction args arbitrary: succ s t)
  case Nil
  then show ?case by simp
next
  case (Cons a args)
  from Cons.prems have ra: "replayable a" by simp
  from replayableD [OF ra sameFuture_recoverNextVars [OF Cons.prems(2)], of pre]
  have a: "fst (a (recoverNextVars pre s)) = fst (a (recoverNextVars pre t))"
    and f: "sameFuture (snd (a (recoverNextVars pre s))) (snd (a (recoverNextVars pre t)))"
    by simp_all
  from sameFuture_snapshots [OF f]
  have sn: "snapshotNextVars (snd (a (recoverNextVars pre s)))
      = snapshotNextVars (snd (a (recoverNextVars pre t)))" by simp
  from Cons.prems(1) have rest: "\<forall>c \<in> set args. replayable c" by simp
  note IH = Cons.IH [OF rest f]
  show ?case using a sn IH by (simp add: split_beta Let_def)
qed

lemma replayable_translateOrAction:
  assumes args: "\<forall>c \<in> set args. replayable c"
  shows "replayable (translateOrAction args)"
proof -
  have "fst (translateOrAction args s) = fst (translateOrAction args t)
      \<and> sameFuture (snd (translateOrAction args s)) (snd (translateOrAction args t))"
    if sf: "sameFuture s t" for s t
  proof -
    from sameFuture_snapshots [OF sf] have pre: "snapshotNextVars s = snapshotNextVars t" by simp
    obtain su s1 where ls: "orActionLoop (snapshotNextVars t) args [] s = (su, s1)"
      by (cases "orActionLoop (snapshotNextVars t) args [] s")
    obtain tu t1 where lt: "orActionLoop (snapshotNextVars t) args [] t = (tu, t1)"
      by (cases "orActionLoop (snapshotNextVars t) args [] t")
    from orActionLoop_replay [OF args sf, of "snapshotNextVars t" "[]"] ls lt
    have tu: "tu = su" and f: "sameFuture s1 t1" by simp_all
    from sameFuture_mathRandom [OF f]
    have x: "fst (mathRandom s1) = fst (mathRandom t1)"
      and f2: "sameFuture (snd (mathRandom s1)) (snd (mathRandom t1))" by simp_all
    show ?thesis
      using pre ls lt tu f x f2 sameFuture_recoverNextVars [OF f] sameFuture_recoverNextVars [OF f2]
      by (simp add: translateOrAction_def split_beta Let_def)
  qed
  then show ?thesis by (simp add: replayable_def)
qed

lemma replayable_countersCallables: "countersCallables x = Some c \<Longrightarrow> replayable c"
proof -
  have same: "fst (eq (=) vs s) = fst (eq (=) vs t)
      \<and> sameFuture (snd (eq (=) vs s)) (snd (eq (=) vs t))"
    if "sameFuture s t" for vs s t
    using that by (cases "((=) :: rvalue \<Rightarrow> rvalue \<Rightarrow> bool, vs, s)" rule: eq.cases) simp_all
  have isOne: "replayable (applyFun 3 [readVar 0 ''n'', mkConstComputable (IntV 1)] (eq (=)))"
    by (rule replayable_applyFun) (simp_all add: replayable_readVar replayable_const same)
  have anyInit: "replayable (translateOrAction [assign 1 ''n'' (mkConstComputable (IntV 1)),
                                         assign 2 ''n'' (mkConstComputable (IntV 2))])"
    by (rule replayable_translateOrAction) (simp add: replayable_assign replayable_const)
  assume "countersCallables x = Some c"
  then show ?thesis
    using isOne anyInit
    by (auto simp: countersCallables_def replayable_assign replayable_const split: if_splits)
qed

theorem test_replay_witness:
  "fst (test countersCallables (testArgs 1 0 ''AnyInit'' ''Step'' ''IsOne'')
         (counters None None (\<lambda>i. 1 / 2)))
   = fst (test countersCallables (testArgs 1 0 ''AnyInit'' ''Step'' ''IsOne'')
         ((counters None None (\<lambda>i. 1 / 2))
            \<lparr>runtimeErrors := [(3, ''Division by zero'')], ndraws := 4\<rparr>))
   \<and> lastTrace (snd (test countersCallables (testArgs 1 0 ''AnyInit'' ''Step'' ''IsOne'')
         (counters None None (\<lambda>i. 1 / 2))))
   = lastTrace (snd (test countersCallables (testArgs 1 0 ''AnyInit'' ''Step'' ''IsOne'')
         ((counters None None (\<lambda>i. 1 / 2))
            \<lparr>runtimeErrors := [(3, ''Division by zero'')], ndraws := 4\<rparr>)))"
proof -
  let ?args = "testArgs 1 0 ''AnyInit'' ''Step'' ''IsOne''"
  let ?s = "counters None None (\<lambda>i. 1 / 2)"
  let ?t = "(counters None None (\<lambda>i. 1 / 2))
            \<lparr>runtimeErrors := [(3, ''Division by zero'')], ndraws := 4\<rparr>"
  have a: "\<forall>c \<in> set ?args. replayable c"
    by (simp add: testArgs_def replayable_const)
  have c: "\<forall>x c. countersCallables x = Some c \<longrightarrow> replayable c"
    using replayable_countersCallables by blast
  have sf: "sameFuture ?s ?t"
    by (simp add: sameFuture_def counters_def)
  from test_replay [of ?args countersCallables ?s ?t] a c sf
  show ?thesis by simp
qed


text \<open>
  Two invocations in a row. The first leaves the registers as it found them, but
  \<^verbatim>\<open>Math.random()\<close> goes on from where the first invocation left it: with the numbers
  \<open>0, 1/2, 1/2, \<dots>\<close> the run of the first invocation starts from \<^verbatim>\<open>n = 1\<close> and that of the
  second from \<^verbatim>\<open>n = 2\<close>, and the verdicts are \<^verbatim>\<open>true\<close> and \<^verbatim>\<open>false\<close>.
\<close>

lemmas eval_counters = test_def testArgs_def mkConstComputable_apply singleRun_def callableOrFail_def
  countersCallables_def translateOrAction_def Let_def assign_def applyFun_def counters_def
  setRegister_def snapshotNextVars_def snapshotVars_def snapshotRegs_def recoverNextVars_def
  recoverVars_def recoverRegs_def valueAt_def mathRandom_def orFalse_def isTrue_def shiftVars_def
  varsToRecord_def readVar_def fail_def roundDouble_def quantum_def exponentOf_def
  roundHalfEven_def bitlen_numeral_simps

lemma test_first_invocation:
  "test countersCallables (testArgs 1 0 ''AnyInit'' ''Step'' ''IsOne'')
     (counters None None (\<lambda>i. if i = 0 then 0 else 1 / 2))
   = (Some (BoolV True),
      (counters None None (\<lambda>i. if i = 0 then 0 else 1 / 2))
        \<lparr>lastTrace := Some (ListV [RecV [(''n'', IntV 1)]]), ndraws := 1\<rparr>)"
  by (simp add: eval_counters)

lemma test_second_invocation:
  "test countersCallables (testArgs 1 0 ''AnyInit'' ''Step'' ''IsOne'')
     ((counters None None (\<lambda>i. if i = 0 then 0 else 1 / 2))
        \<lparr>lastTrace := Some (ListV [RecV [(''n'', IntV 1)]]), ndraws := 1\<rparr>)
   = (Some (BoolV False),
      (counters None None (\<lambda>i. if i = 0 then 0 else 1 / 2))
        \<lparr>lastTrace := Some (ListV [RecV [(''n'', IntV 2)]]), ndraws := 2\<rparr>)"
  by (simp add: eval_counters)

theorem test_repeated_invocation_counterexample:
  "fst (test countersCallables (testArgs 1 0 ''AnyInit'' ''Step'' ''IsOne'')
          (counters None None (\<lambda>i. if i = 0 then 0 else 1 / 2))) = Some (BoolV True)
   \<and> lastTrace (snd (test countersCallables (testArgs 1 0 ''AnyInit'' ''Step'' ''IsOne'')
          (counters None None (\<lambda>i. if i = 0 then 0 else 1 / 2))))
       = Some (ListV [RecV [(''n'', IntV 1)]])
   \<and> fst (test countersCallables (testArgs 1 0 ''AnyInit'' ''Step'' ''IsOne'')
          (snd (test countersCallables (testArgs 1 0 ''AnyInit'' ''Step'' ''IsOne'')
             (counters None None (\<lambda>i. if i = 0 then 0 else 1 / 2))))) = Some (BoolV False)
   \<and> lastTrace (snd (test countersCallables (testArgs 1 0 ''AnyInit'' ''Step'' ''IsOne'')
          (snd (test countersCallables (testArgs 1 0 ''AnyInit'' ''Step'' ''IsOne'')
             (counters None None (\<lambda>i. if i = 0 then 0 else 1 / 2))))))
       = Some (ListV [RecV [(''n'', IntV 2)]])"
  by (simp only: test_first_invocation test_second_invocation fst_conv snd_conv) simp



section \<open>Aggregation of the name errors\<close>

lemma foldl_errors:
  "foldl (\<lambda>errors result. case result of Error es \<Rightarrow> errors @ es | Ok \<Rightarrow> errors) acc
     (map (\<lambda>e. Error [e]) es) = acc @ es"
  by (induction es arbitrary: acc) simp_all

lemma mergeNameResults_singletons:
  "mergeNameResults (map (\<lambda>e. Error [e]) es) = (if es = [] then Ok else Error es)"
  by (simp add: mergeNameResults_def foldl_errors)

lemma table_specTable:
  "table tables v = Inr t \<longleftrightarrow> specTable tables (moduleStack v) = Some t"
  by (auto simp: table_def currentModule_def split: option.splits)

lemma filterScope_specInScope:
  "\<forall>d \<in> set defs. scope d \<noteq> Some 0 \<Longrightarrow>
   list_ex (\<lambda>d. identifier d = n) (filterScope defs S)
     \<longleftrightarrow> (\<exists>d \<in> set defs. identifier d = n \<and> specInScope d S)"
  by (auto simp: filterScope_def specInScope_def list_ex_iff split: option.splits)

lemma visit_reference:
  assumes nz: "scopesNonzero tables"
    and e: "e = EnterName n i \<or> e = EnterApp n i \<or> e = EnterVarType n i \<or> e = EnterConstType n i"
    and v: "visit tables scopesFor e v = Inr v'"
  shows "v' = (if specResolves tables scopesFor (moduleStack v, defName v, e) then v
               else v\<lparr>results := results v @ [Error [specError (moduleStack v, defName v, e)]]\<rparr>)"
proof -
  from v e obtain t where t: "table tables v = Inr t"
    by (cases "table tables v") auto
  then have st: "specTable tables (moduleStack v) = Some t" by (simp only: table_specTable)
  then have "moduleStack v \<noteq> []" and "tables (last (moduleStack v)) = Some t"
    by (auto split: if_splits)
  with nz have nz': "\<forall>d \<in> set (valueDefinitions t). scope d \<noteq> Some 0"
    by (auto simp: scopesNonzero_def)
  have cm: "currentModule v = Some (last (moduleStack v))"
    using \<open>moduleStack v \<noteq> []\<close> by (simp add: currentModule_def)
  from e show ?thesis
  proof (elim disjE)
    assume "e = EnterName n i"
    with v t st cm \<open>moduleStack v \<noteq> []\<close> filterScope_specInScope [OF nz', of n "scopesFor i"]
    show ?thesis by (auto simp: pushError_def Let_def split: if_splits)
  next
    assume "e = EnterApp n i"
    with v t st cm \<open>moduleStack v \<noteq> []\<close> filterScope_specInScope [OF nz', of n "scopesFor i"]
    show ?thesis by (auto simp: pushError_def Let_def split: if_splits)
  next
    assume "e = EnterVarType n i"
    with v t st cm \<open>moduleStack v \<noteq> []\<close>
    show ?thesis by (auto simp: pushError_def list_ex_iff split: if_splits)
  next
    assume "e = EnterConstType n i"
    with v t st cm \<open>moduleStack v \<noteq> []\<close>
    show ?thesis by (auto simp: pushError_def list_ex_iff split: if_splits)
  qed
qed

lemma walkModule_results:
  assumes nz: "scopesNonzero tables"
  shows "walkModule tables scopesFor es v = Inr v' \<Longrightarrow>
   results v' = results v @ map (\<lambda>x. Error [specError x])
     (filter (\<lambda>x. \<not> specResolves tables scopesFor x) (specReferences (moduleStack v) (defName v) es))"
proof (induction es arbitrary: v)
  case Nil
  then show ?case by simp
next
  case (Cons e es)
  from Cons.prems obtain v1 where v1: "visit tables scopesFor e v = Inr v1"
    and w: "walkModule tables scopesFor es v1 = Inr v'"
    by (cases "visit tables scopesFor e v") auto
  note IH = Cons.IH [OF w]
  show ?case
  proof (cases e)
    case (EnterDef n)
    with v1 IH show ?thesis by auto
  next
    case (EnterModuleDef m)
    with v1 IH show ?thesis by auto
  next
    case ExitModuleDef
    with v1 IH show ?thesis by auto
  next
    case (EnterName n i)
    from visit_reference [OF nz _ v1, of n i] EnterName IH show ?thesis by (auto split: if_splits)
  next
    case (EnterApp n i)
    from visit_reference [OF nz _ v1, of n i] EnterApp IH show ?thesis by (auto split: if_splits)
  next
    case (EnterVarType n i)
    from visit_reference [OF nz _ v1, of n i] EnterVarType IH show ?thesis by (auto split: if_splits)
  next
    case (EnterConstType n i)
    from visit_reference [OF nz _ v1, of n i] EnterConstType IH show ?thesis by (auto split: if_splits)
  qed
qed

text \<open>
  C4 (as amended). When no table gives a value definition the scope zero and every module
  visited has a table (no error is thrown), \<^verbatim>\<open>resolveNames\<close> returns the ok result if and
  only if every reference of the walk resolves: every name expression and every operator
  application to a value definition that is in scope (its scope is absent or among
  \<^verbatim>\<open>scopesFor\<close> of the reference), and every type name (\<^verbatim>\<open>varType\<close>, \<^verbatim>\<open>constType\<close>) to a type
  definition. Otherwise the result is the error result with exactly one error for each
  unresolved reference, in the order of the walk.
\<close>

theorem resolveNames_aggregates:
  "scopesNonzero tables \<and> resolveNames tntModule tables scopesFor = Inr r \<longrightarrow>
     (r = Ok \<longleftrightarrow> (\<forall>x \<in> set (specReferences [] [] tntModule). specResolves tables scopesFor x))
   \<and> (r \<noteq> Ok \<longrightarrow> r = Error (map specError (specUnresolved tables scopesFor tntModule)))"
proof (intro impI, elim conjE)
  assume nz: "scopesNonzero tables" and r: "resolveNames tntModule tables scopesFor = Inr r"
  from r obtain v where w: "walkModule tables scopesFor tntModule \<lparr>results = [], defName = [], moduleStack = []\<rparr> = Inr v"
    and rv: "r = mergeNameResults (results v)"
    by (auto simp: resolveNames_def split: sum.splits)
  from walkModule_results [OF nz w]
  have "results v = map (\<lambda>e. Error [e]) (map specError (specUnresolved tables scopesFor tntModule))"
    by (simp add: specUnresolved_def)
  with rv have "r = mergeNameResults
      (map (\<lambda>e. Error [e]) (map specError (specUnresolved tables scopesFor tntModule)))"
    by (simp only:)
  then have res: "r = (if specUnresolved tables scopesFor tntModule = [] then Ok
      else Error (map specError (specUnresolved tables scopesFor tntModule)))"
    by (simp only: mergeNameResults_singletons map_is_Nil_conv)
  have "specUnresolved tables scopesFor tntModule = []
      \<longleftrightarrow> (\<forall>x \<in> set (specReferences [] [] tntModule). specResolves tables scopesFor x)"
    by (auto simp: specUnresolved_def filter_empty_conv)
  with res show "(r = Ok \<longleftrightarrow> (\<forall>x \<in> set (specReferences [] [] tntModule). specResolves tables scopesFor x))
   \<and> (r \<noteq> Ok \<longrightarrow> r = Error (map specError (specUnresolved tables scopesFor tntModule)))"
    by auto
qed


lemma scopesNonzero_undeclaredY: "scopesNonzero undeclaredYTables"
  by (simp add: scopesNonzero_def undeclaredYTables_def)

lemma resolveNames_undeclaredY:
  "resolveNames undeclaredY undeclaredYTables (\<lambda>_. [])
     = Inr (Error [NameError ValueKind ''y'' ''x'' (Some ''M'') 1])"
  by (simp add: resolveNames_def undeclaredY_def undeclaredYTables_def table_def currentModule_def
      filterScope_def pushError_def mergeNameResults_def)

theorem resolveNames_aggregates_witness:
  "resolveNames undeclaredY undeclaredYTables (\<lambda>_. [])
     = Inr (Error [NameError ValueKind ''y'' ''x'' (Some ''M'') 1])
   \<and> Error [NameError ValueKind ''y'' ''x'' (Some ''M'') 1]
     = Error (map specError (specUnresolved undeclaredYTables (\<lambda>_. []) undeclaredY))"
  using resolveNames_aggregates [of undeclaredYTables undeclaredY "\<lambda>_. []"
      "Error [NameError ValueKind ''y'' ''x'' (Some ''M'') 1]"]
    scopesNonzero_undeclaredY resolveNames_undeclaredY
  by simp

text \<open>
  A module whose only reference is the name of an undefined type has no name expression and
  no operator application, and its result is an error. A name whose only definition has the
  scope zero, which is not a scope of the reference, gives the ok result.
\<close>

theorem resolveNames_types_and_scope_zero_counterexample:
  "resolveNames [EnterModuleDef ''M'', EnterDef ''v'', EnterVarType ''T'' 3, ExitModuleDef]
     [''M'' \<mapsto> \<lparr>valueDefinitions = [], typeDefinitions = []\<rparr>] (\<lambda>_. [])
     = Inr (Error [NameError TypeKind ''T'' ''v'' (Some ''M'') 3])
   \<and> list_all (\<lambda>e. case e of EnterName n i \<Rightarrow> False | EnterApp n i \<Rightarrow> False | _ \<Rightarrow> True)
       [EnterModuleDef ''M'', EnterDef ''v'', EnterVarType ''T'' 3, ExitModuleDef]
   \<and> resolveNames [EnterModuleDef ''M'', EnterDef ''x'', EnterName ''y'' 5, ExitModuleDef]
     [''M'' \<mapsto> \<lparr>valueDefinitions = [\<lparr>identifier = ''y'', scope = Some 0\<rparr>], typeDefinitions = []\<rparr>]
     (\<lambda>_. [2])
     = Inr Ok
   \<and> \<not> specInScope \<lparr>identifier = ''y'', scope = Some 0\<rparr> [2]
   \<and> \<not> specResolves
       [''M'' \<mapsto> \<lparr>valueDefinitions = [\<lparr>identifier = ''y'', scope = Some 0\<rparr>], typeDefinitions = []\<rparr>]
       (\<lambda>_. [2]) ([''M''], ''x'', EnterName ''y'' 5)"
  by (simp add: resolveNames_def table_def currentModule_def filterScope_def pushError_def
      mergeNameResults_def specInScope_def)


end
